theory Spec2Isabelle
  imports Main "HOL-Library.Word" "HOL-Library.AList"
begin

section \<open>Bytecode container (program.h)\<close>

type_synonym byte = "8 word"

text \<open>The opcodes of \<^verbatim>\<open>enum class Opcode : uint8_t\<close>, numbered in declaration order.\<close>

datatype Opcode =
  PUSH_FUNC | PUSH_PROTO | PEEK | POP | CALL | ADD | RET | JUMP_FALSE | JUMP | STOP

fun opcode_byte :: "Opcode \<Rightarrow> byte" where
  "opcode_byte PUSH_FUNC = 0"
| "opcode_byte PUSH_PROTO = 1"
| "opcode_byte PEEK = 2"
| "opcode_byte POP = 3"
| "opcode_byte CALL = 4"
| "opcode_byte ADD = 5"
| "opcode_byte RET = 6"
| "opcode_byte JUMP_FALSE = 7"
| "opcode_byte JUMP = 8"
| "opcode_byte STOP = 9"

text \<open>
  A byte read as an \<^verbatim>\<open>Opcode\<close>. A byte above 9 is no enumerator: the \<^verbatim>\<open>switch\<close> of
  \<^verbatim>\<open>Interp::Run\<close> has no case for it.
\<close>

definition byte_opcode :: "byte \<Rightarrow> Opcode option" where
  "byte_opcode b =
     (if b = 0 then Some PUSH_FUNC else if b = 1 then Some PUSH_PROTO
      else if b = 2 then Some PEEK else if b = 3 then Some POP
      else if b = 4 then Some CALL else if b = 5 then Some ADD
      else if b = 6 then Some RET else if b = 7 then Some JUMP_FALSE
      else if b = 8 then Some JUMP else if b = 9 then Some STOP else None)"

text \<open>
  \<^verbatim>\<open>memcpy\<close> of an integer object to and from the byte vector, on a little-endian
  target: \<open>le_encode n v\<close> is the \<open>n\<close> low-order bytes of \<open>v\<close>, lowest first.
\<close>

fun le_encode :: "nat \<Rightarrow> nat \<Rightarrow> byte list" where
  "le_encode 0 v = []"
| "le_encode (Suc n) v = of_nat (v mod 256) # le_encode n (v div 256)"

fun le_decode :: "byte list \<Rightarrow> nat" where
  "le_decode [] = 0"
| "le_decode (b # bs) = unat b + 256 * le_decode bs"

section \<open>Runtime functions (runtime.h, runtime.cpp)\<close>

text \<open>
  \<^verbatim>\<open>RuntimeFn\<close> is a pointer to one of the two routines of runtime.cpp. The bytecode
  and the values of the interpreter hold the pointer itself, eight bytes. Where the
  routines are loaded is not fixed by the source: \<open>fn_ptr\<close> takes two distinct
  non-null addresses for them.
\<close>

datatype RuntimeFn = PrintInt | ReadInt

fun fn_ptr :: "RuntimeFn \<Rightarrow> 64 word" where
  "fn_ptr PrintInt = 4096"
| "fn_ptr ReadInt = 8192"

definition ptr_fn :: "64 word \<Rightarrow> RuntimeFn option" where
  "ptr_fn p = (if p = 4096 then Some PrintInt else if p = 8192 then Some ReadInt else None)"

text \<open>\<^verbatim>\<open>kRuntimeFns\<close>: the registry of primitives by name.\<close>

definition kRuntimeFns :: "string \<rightharpoonup> RuntimeFn" where
  "kRuntimeFns = [''print_int'' \<mapsto> PrintInt, ''read_int'' \<mapsto> ReadInt]"

section \<open>Interpreter (interp.h, interp.cpp)\<close>

text \<open>
  How an execution can fail. \<open>RuntimeError\<close> is the exception class of interp.h, thrown
  and caught by the driver; \<open>AssertionFailed\<close> is a failed \<^verbatim>\<open>assert\<close>, which aborts the
  process; \<open>LengthError\<close> is what \<^verbatim>\<open>std::vector::resize\<close> throws for a size that wrapped
  around; \<open>Undefined\<close> marks behaviour that C++ leaves undefined.
\<close>

datatype error =
  RuntimeError string
| AssertionFailed string
| LengthError
| Undefined string

text \<open>\<^verbatim>\<open>Interp::Value\<close>: the tag and the payload of the union.\<close>

datatype Value =
  VProto "64 word"
| VAddr "64 word"
| VInt "64 word"

text \<open>\<^verbatim>\<open>Value::operator bool\<close>.\<close>

fun truthy :: "Value \<Rightarrow> bool" where
  "truthy (VProto p) = True"
| "truthy (VAddr a) = True"
| "truthy (VInt i) = (i \<noteq> 0)"

text \<open>Whether a value has the kind \<^verbatim>\<open>INT\<close>.\<close>

fun is_VInt :: "Value \<Rightarrow> bool" where
  "is_VInt (VInt i) = True"
| "is_VInt _ = False"

text \<open>
  The state of an interpreter. The head of \<open>stack\<close> is the top (\<^verbatim>\<open>stack_.rbegin()\<close>).
  \<open>cin\<close> holds the integers still to be read from \<^verbatim>\<open>std::cin\<close>, \<open>cout\<close> the
  integers written to \<^verbatim>\<open>std::cout\<close> so far, oldest first.
\<close>

record Interp =
  pc :: "64 word"
  stack :: "Value list"
  cin :: "64 word list"
  cout :: "64 word list"

text \<open>
  A member function of \<^verbatim>\<open>Interp\<close> either fails, leaving the state as it was at the
  point of failure, or returns a value and the new state.
\<close>

type_synonym 'a M = "Interp \<Rightarrow> (error \<times> Interp) + ('a \<times> Interp)"

definition ret :: "'a \<Rightarrow> 'a M" where
  "ret a s = Inr (a, s)"

definition fail :: "error \<Rightarrow> 'a M" where
  "fail e s = Inl (e, s)"

definition bnd :: "'a M \<Rightarrow> ('a \<Rightarrow> 'b M) \<Rightarrow> 'b M" where
  "bnd m f s = (case m s of Inl x \<Rightarrow> Inl x | Inr (a, s') \<Rightarrow> f a s')"

text \<open>
  \<^verbatim>\<open>Program::Read<T>\<close> for a type of \<open>n\<close> bytes: the assertion is evaluated in
  \<^verbatim>\<open>size_t\<close> arithmetic; a program counter so large that the sum wraps passes it and
  reads outside the vector.
\<close>

definition Read :: "byte list \<Rightarrow> nat \<Rightarrow> (byte list) M" where
  "Read c n s =
     (if unat (pc s + of_nat n) \<le> length c then
        if unat (pc s) + n \<le> length c
        then Inr (take n (drop (unat (pc s)) c), s\<lparr>pc := pc s + of_nat n\<rparr>)
        else Inl (Undefined ''read outside the code'', s)
      else Inl (AssertionFailed ''pc + sizeof(T) <= code_.size()'', s))"

definition Read_Opcode :: "byte list \<Rightarrow> (Opcode option) M" where
  "Read_Opcode c = bnd (Read c 1) (\<lambda>bs. ret (byte_opcode (hd bs)))"

definition Read_size_t :: "byte list \<Rightarrow> (64 word) M" where
  "Read_size_t c = bnd (Read c 8) (\<lambda>bs. ret (of_nat (le_decode bs)))"

definition Read_unsigned :: "byte list \<Rightarrow> (32 word) M" where
  "Read_unsigned c = bnd (Read c 4) (\<lambda>bs. ret (of_nat (le_decode bs)))"

definition Read_RuntimeFn :: "byte list \<Rightarrow> (64 word) M" where
  "Read_RuntimeFn c = bnd (Read c 8) (\<lambda>bs. ret (of_nat (le_decode bs)))"

definition Push :: "Value \<Rightarrow> unit M" where
  "Push v s = Inr ((), s\<lparr>stack := v # stack s\<rparr>)"

definition Pop :: "Value M" where
  "Pop s =
     (case stack s of
        [] \<Rightarrow> Inl (AssertionFailed ''stack empty'', s)
      | v # vs \<Rightarrow> Inr (v, s\<lparr>stack := vs\<rparr>))"

definition PopInt :: "(64 word) M" where
  "PopInt =
     bnd Pop (\<lambda>v. case v of
        VInt i \<Rightarrow> ret i
      | _ \<Rightarrow> fail (AssertionFailed ''v.Kind == Value::Kind::INT''))"

definition PopAddr :: "(64 word) M" where
  "PopAddr =
     bnd Pop (\<lambda>v. case v of
        VAddr a \<Rightarrow> ret a
      | _ \<Rightarrow> fail (AssertionFailed ''v.Kind == Value::Kind::ADDR''))"

definition PeekInt :: "(64 word) M" where
  "PeekInt s =
     (case stack s of
        [] \<Rightarrow> Inl (Undefined ''*stack_.rbegin() of an empty stack'', s)
      | VInt i # vs \<Rightarrow> Inr (i, s)
      | _ # vs \<Rightarrow> Inl (AssertionFailed ''v.Kind == Value::Kind::INT'', s))"

text \<open>\<^verbatim>\<open>stack_.resize(stack_.size() - n)\<close>: the difference is taken in \<^verbatim>\<open>size_t\<close>.\<close>

definition Shrink :: "nat \<Rightarrow> unit M" where
  "Shrink n s =
     (if n \<le> length (stack s) then Inr ((), s\<lparr>stack := drop n (stack s)\<rparr>)
      else Inl (LengthError, s))"

text \<open>
  The two routines of runtime.cpp. At the end of the input \<^verbatim>\<open>std::cin >> val\<close> does not
  write \<^verbatim>\<open>val\<close>, and \<^verbatim>\<open>ReadInt\<close> pushes the local variable as it was declared, without
  a value: that read is undefined.
\<close>

definition PrintInt_fn :: "unit M" where
  "PrintInt_fn =
     bnd PeekInt (\<lambda>v.
     bnd (\<lambda>s. Inr ((), s\<lparr>cout := cout s @ [v]\<rparr>)) (\<lambda>_.
     Push (VInt v)))"

definition ReadInt_fn :: "unit M" where
  "ReadInt_fn =
     bnd (\<lambda>s. case cin s of
            [] \<Rightarrow> Inl (Undefined ''val is pushed without a value'', s)
          | v # vs \<Rightarrow> Inr (v, s\<lparr>cin := vs\<rparr>)) (\<lambda>val.
     Push (VInt val))"

fun runtime_fn :: "RuntimeFn \<Rightarrow> unit M" where
  "runtime_fn PrintInt = PrintInt_fn"
| "runtime_fn ReadInt = ReadInt_fn"

text \<open>
  One iteration of the loop of \<^verbatim>\<open>Interp::Run\<close>: \<open>True\<close> for \<^verbatim>\<open>continue\<close>, \<open>False\<close> for
  the \<^verbatim>\<open>return\<close> of \<^verbatim>\<open>STOP\<close>. A byte that is no opcode leaves the \<^verbatim>\<open>switch\<close> and the
  loop goes on.
\<close>

definition Step :: "byte list \<Rightarrow> bool M" where
  "Step c =
     bnd (Read_Opcode c) (\<lambda>op. case op of
       Some PUSH_FUNC \<Rightarrow>
         bnd (Read_size_t c) (\<lambda>a. bnd (Push (VAddr a)) (\<lambda>_. ret True))
     | Some PUSH_PROTO \<Rightarrow>
         bnd (Read_RuntimeFn c) (\<lambda>p. bnd (Push (VProto p)) (\<lambda>_. ret True))
     | Some PEEK \<Rightarrow>
         bnd (Read_unsigned c) (\<lambda>idx s.
           if unat idx < length (stack s)
           then bnd (Push (stack s ! unat idx)) (\<lambda>_. ret True) s
           else Inl (Undefined ''stack_.rbegin() + idx outside the stack'', s))
     | Some POP \<Rightarrow> bnd Pop (\<lambda>_. ret True)
     | Some CALL \<Rightarrow>
         bnd Pop (\<lambda>callee. case callee of
           VProto p \<Rightarrow>
             (case ptr_fn p of
                Some f \<Rightarrow> bnd (runtime_fn f) (\<lambda>_. ret True)
              | None \<Rightarrow> fail (Undefined ''call through a pointer to no routine''))
         | VAddr a \<Rightarrow>
             bnd (\<lambda>s. Push (VAddr (pc s)) s) (\<lambda>_.
             bnd (\<lambda>s. Inr ((), s\<lparr>pc := a\<rparr>)) (\<lambda>_. ret True))
         | VInt i \<Rightarrow> fail (RuntimeError ''cannot call integer''))
     | Some ADD \<Rightarrow>
         bnd PopInt (\<lambda>rhs. bnd PopInt (\<lambda>lhs.
         bnd (Push (VInt (lhs + rhs))) (\<lambda>_. ret True)))
     | Some RET \<Rightarrow>
         bnd (Read_unsigned c) (\<lambda>depth.
         bnd (Read_unsigned c) (\<lambda>nargs.
         bnd Pop (\<lambda>v.
         bnd (Shrink (unat depth)) (\<lambda>_.
         bnd PopAddr (\<lambda>a.
         bnd (\<lambda>s. Inr ((), s\<lparr>pc := a\<rparr>)) (\<lambda>_.
         bnd (Shrink (unat nargs)) (\<lambda>_.
         bnd (Push v) (\<lambda>_. ret True))))))))
     | Some JUMP_FALSE \<Rightarrow>
         bnd Pop (\<lambda>cond.
         bnd (Read_size_t c) (\<lambda>addr.
         bnd (\<lambda>s. Inr ((), if \<not> truthy cond then s\<lparr>pc := addr\<rparr> else s)) (\<lambda>_.
         ret True)))
     | Some JUMP \<Rightarrow>
         bnd (Read_size_t c) (\<lambda>addr.
         bnd (\<lambda>s. Inr ((), s\<lparr>pc := addr\<rparr>)) (\<lambda>_. ret True))
     | Some STOP \<Rightarrow> ret False
     | None \<Rightarrow> ret True)"

text \<open>
  \<^verbatim>\<open>Interp::Run\<close>. The loop has no bound, so the model counts iterations: \<open>OutOfFuel\<close>
  is a run that has not ended after the given number of them, \<open>Returned\<close> one that has
  reached \<^verbatim>\<open>STOP\<close>, and \<open>Failed\<close> one that an exception or a failed assertion has ended,
  with the state it was in.
\<close>

datatype outcome =
  Returned Interp
| Failed error Interp
| OutOfFuel Interp

fun Run :: "nat \<Rightarrow> byte list \<Rightarrow> Interp \<Rightarrow> outcome" where
  "Run 0 c s = OutOfFuel s"
| "Run (Suc n) c s =
     (case Step c s of
        Inl (e, s') \<Rightarrow> Failed e s'
      | Inr (True, s') \<Rightarrow> Run n c s'
      | Inr (False, s') \<Rightarrow> Returned s')"

text \<open>A fresh interpreter (\<^verbatim>\<open>pc_ = 0\<close>, empty stack) in front of the given input.\<close>

definition Interp_init :: "64 word list \<Rightarrow> Interp" where
  "Interp_init inp = \<lparr>pc = 0, stack = [], cin = inp, cout = []\<rparr>"

section \<open>Syntax tree (ast.h)\<close>

text \<open>\<^verbatim>\<open>BinaryExpr::Kind\<close> has the single enumerator \<^verbatim>\<open>ADD\<close>.\<close>

datatype BinaryKind = BinaryADD

datatype Expr =
  RefExpr string
| BinaryExpr BinaryKind Expr Expr
| CallExpr Expr "Expr list"

datatype Stmt =
  BlockStmt "Stmt list"
| WhileStmt Expr Stmt
| ExprStmt Expr
| ReturnStmt Expr

text \<open>
  \<^verbatim>\<open>FuncDecl\<close> and \<^verbatim>\<open>ProtoDecl\<close>: name, arguments (name and type), return type, and the
  body block or the name of the primitive.
\<close>

record FuncDecl =
  fd_name :: string
  fd_args :: "(string \<times> string) list"
  fd_type :: string
  fd_body :: "Stmt list"

record ProtoDecl =
  pd_name :: string
  pd_args :: "(string \<times> string) list"
  pd_type :: string
  pd_primitive :: string

datatype TopLevelStmt =
  TopFunc FuncDecl
| TopProto ProtoDecl
| TopStmt Stmt

type_synonym Module = "TopLevelStmt list"

section \<open>Code generator (codegen.h, codegen.cpp)\<close>

text \<open>\<^verbatim>\<open>Codegen::Label\<close> wraps an \<^verbatim>\<open>unsigned\<close> identifier.\<close>

type_synonym Label = "32 word"

datatype Binding =
  FUNC Label
| PROTO RuntimeFn
| ARG "32 word"

datatype Scope =
  GlobalScope "string \<rightharpoonup> Label" "string \<rightharpoonup> RuntimeFn"
| FuncScope Scope "string \<rightharpoonup> 32 word"
| BlockScope Scope

fun Lookup :: "Scope \<Rightarrow> string \<Rightarrow> error + Binding" where
  "Lookup (GlobalScope fs ps) name =
     (case fs name of
        Some l \<Rightarrow> Inr (FUNC l)
      | None \<Rightarrow>
          (case ps name of
             Some f \<Rightarrow> Inr (PROTO f)
           | None \<Rightarrow> Inl (AssertionFailed ''name not bound'')))"
| "Lookup (FuncScope parent as) name =
     (case as name of
        Some i \<Rightarrow> Inr (ARG i)
      | None \<Rightarrow> Lookup parent name)"
| "Lookup (BlockScope parent) name = Lookup parent name"

text \<open>
  The members of \<^verbatim>\<open>Codegen\<close>, named without the underscore that ends their names in the
  source. An offset into the code is a \<^verbatim>\<open>size_t\<close>, here a natural number; \<open>depth\<close>,
  \<open>nextLabel\<close> and the addresses of \<open>labelToAddress\<close> are \<^verbatim>\<open>unsigned\<close>, 32 bits.
\<close>

record Codegen =
  code :: "byte list"
  depth :: "32 word"
  func :: "FuncDecl option"
  nextLabel :: "32 word"
  fixups :: "Label \<rightharpoonup> nat list"
  labelToAddress :: "Label \<rightharpoonup> 32 word"
  funcs :: "string \<rightharpoonup> Label"

text \<open>
  The object that \<^verbatim>\<open>Codegen()\<close> creates in main.cpp: value-initialised, so \<^verbatim>\<open>func_\<close>
  is null.
\<close>

definition Codegen_init :: Codegen where
  "Codegen_init =
     \<lparr>code = [], depth = 0, func = None, nextLabel = 0,
      fixups = Map.empty, labelToAddress = Map.empty, funcs = Map.empty\<rparr>"

text \<open>\<^verbatim>\<open>emplace\<close> of \<^verbatim>\<open>std::map\<close> and \<^verbatim>\<open>std::unordered_map\<close> keeps an entry that is there.\<close>

definition emplace :: "'k \<Rightarrow> 'v \<Rightarrow> ('k \<rightharpoonup> 'v) \<Rightarrow> ('k \<rightharpoonup> 'v)" where
  "emplace k v m = (case m k of None \<Rightarrow> m(k \<mapsto> v) | Some _ \<Rightarrow> m)"

definition MakeLabel :: "Codegen \<Rightarrow> Label \<times> Codegen" where
  "MakeLabel g = (nextLabel g + 1, g\<lparr>nextLabel := nextLabel g + 1\<rparr>)"

text \<open>\<^verbatim>\<open>Emit<T>\<close>: the bytes of the object are appended to the code.\<close>

definition Emit :: "byte list \<Rightarrow> Codegen \<Rightarrow> Codegen" where
  "Emit bs g = g\<lparr>code := code g @ bs\<rparr>"

definition Emit_Opcode :: "Opcode \<Rightarrow> Codegen \<Rightarrow> Codegen" where
  "Emit_Opcode op = Emit [opcode_byte op]"

definition Emit_size_t :: "64 word \<Rightarrow> Codegen \<Rightarrow> Codegen" where
  "Emit_size_t v = Emit (le_encode 8 (unat v))"

definition Emit_unsigned :: "32 word \<Rightarrow> Codegen \<Rightarrow> Codegen" where
  "Emit_unsigned v = Emit (le_encode 4 (unat v))"

definition Emit_RuntimeFn :: "RuntimeFn \<Rightarrow> Codegen \<Rightarrow> Codegen" where
  "Emit_RuntimeFn f = Emit (le_encode 8 (unat (fn_ptr f)))"

text \<open>\<^verbatim>\<open>memcpy(code_.data() + loc, src, n)\<close> for a range inside the code.\<close>

definition patch :: "byte list \<Rightarrow> nat \<Rightarrow> byte list \<Rightarrow> byte list" where
  "patch c loc bs = take loc c @ bs @ drop (loc + length bs) c"

text \<open>
  \<^verbatim>\<open>EmitLabel\<close>. \<^verbatim>\<open>fixups_[label]\<close> creates an empty entry when there is none. The
  \<^verbatim>\<open>memcpy\<close> copies \<^verbatim>\<open>sizeof(unsigned)\<close> bytes of the \<^verbatim>\<open>size_t\<close> address: its four
  low-order bytes. The address stored by \<^verbatim>\<open>emplace\<close> is converted to \<^verbatim>\<open>unsigned\<close>.
\<close>

definition EmitLabel :: "Label \<Rightarrow> Codegen \<Rightarrow> error + Codegen" where
  "EmitLabel label g =
     (let address = length (code g);
          locs = (case fixups g label of None \<Rightarrow> [] | Some ls \<Rightarrow> ls)
      in if \<forall>loc \<in> set locs. loc + 4 \<le> length (code g) then
           Inr (g\<lparr>code := foldl (\<lambda>c loc. patch c loc (le_encode 4 address)) (code g) locs,
                  fixups := (fixups g)(label \<mapsto> locs),
                  labelToAddress := emplace label (of_nat address) (labelToAddress g)\<rparr>)
         else Inl (Undefined ''memcpy outside the code''))"

text \<open>
  \<^verbatim>\<open>EmitFixup\<close>: the address of a placed label, widened to \<^verbatim>\<open>size_t\<close>, or a zero of
  eight bytes whose offset is recorded.
\<close>

definition EmitFixup :: "Label \<Rightarrow> Codegen \<Rightarrow> Codegen" where
  "EmitFixup label g =
     (case labelToAddress g label of
        Some a \<Rightarrow> Emit_size_t (ucast a) g
      | None \<Rightarrow>
          Emit_size_t 0
            (g\<lparr>fixups := (fixups g)(label \<mapsto>
                 (case fixups g label of None \<Rightarrow> [] | Some ls \<Rightarrow> ls) @ [length (code g)])\<rparr>))"

definition EmitPop :: "Codegen \<Rightarrow> error + Codegen" where
  "EmitPop g =
     (if depth g = 0 then Inl (AssertionFailed ''no elements on stack'')
      else Inr (Emit_Opcode POP (g\<lparr>depth := depth g - 1\<rparr>)))"

definition EmitCall :: "32 word \<Rightarrow> Codegen \<Rightarrow> Codegen" where
  "EmitCall nargs g = Emit_Opcode CALL g"

definition EmitPushFunc :: "Label \<Rightarrow> Codegen \<Rightarrow> Codegen" where
  "EmitPushFunc entry g = EmitFixup entry (Emit_Opcode PUSH_FUNC (g\<lparr>depth := depth g + 1\<rparr>))"

definition EmitPushProto :: "RuntimeFn \<Rightarrow> Codegen \<Rightarrow> Codegen" where
  "EmitPushProto fn g = Emit_RuntimeFn fn (Emit_Opcode PUSH_PROTO (g\<lparr>depth := depth g + 1\<rparr>))"

definition EmitPeek :: "32 word \<Rightarrow> Codegen \<Rightarrow> Codegen" where
  "EmitPeek index g = Emit_unsigned index (Emit_Opcode PEEK (g\<lparr>depth := depth g + 1\<rparr>))"

text \<open>\<^verbatim>\<open>EmitReturn\<close>: the argument count is a \<^verbatim>\<open>size_t\<close> converted to \<^verbatim>\<open>unsigned\<close>.\<close>

definition EmitReturn :: "Codegen \<Rightarrow> error + Codegen" where
  "EmitReturn g =
     (if depth g = 0 then Inl (AssertionFailed ''no elements on stack'')
      else
        let g1 = g\<lparr>depth := depth g - 1\<rparr>;
            g2 = Emit_Opcode RET g1;
            g3 = Emit_unsigned (depth g2) g2
        in Inr (Emit_unsigned
                  (case func g3 of Some decl \<Rightarrow> of_nat (length (fd_args decl)) | None \<Rightarrow> 0) g3))"

definition EmitAdd :: "Codegen \<Rightarrow> error + Codegen" where
  "EmitAdd g =
     (if depth g = 0 then Inl (AssertionFailed ''no elements on stack'')
      else Inr (Emit_Opcode ADD (g\<lparr>depth := depth g - 1\<rparr>)))"

definition EmitJumpFalse :: "Label \<Rightarrow> Codegen \<Rightarrow> error + Codegen" where
  "EmitJumpFalse label g =
     (if depth g = 0 then Inl (AssertionFailed ''no elements on stack'')
      else Inr (EmitFixup label (Emit_Opcode JUMP_FALSE (g\<lparr>depth := depth g - 1\<rparr>))))"

definition EmitJump :: "Label \<Rightarrow> Codegen \<Rightarrow> Codegen" where
  "EmitJump label g = EmitFixup label (Emit_Opcode JUMP g)"

definition LowerRefExpr :: "Scope \<Rightarrow> string \<Rightarrow> Codegen \<Rightarrow> error + Codegen" where
  "LowerRefExpr scope name g =
     (case Lookup scope name of
        Inl e \<Rightarrow> Inl e
      | Inr (FUNC entry) \<Rightarrow> Inr (EmitPushFunc entry g)
      | Inr (PROTO fn) \<Rightarrow> Inr (EmitPushProto fn g)
      | Inr (ARG index) \<Rightarrow> Inr (EmitPeek (depth g + index + 1) g))"

text \<open>
  \<^verbatim>\<open>LowerExpr\<close> with \<^verbatim>\<open>LowerBinaryExpr\<close> and \<^verbatim>\<open>LowerCallExpr\<close>. \<open>LowerArgs\<close> is the loop
  of \<^verbatim>\<open>LowerCallExpr\<close> from \<^verbatim>\<open>arg_rbegin()\<close> to \<^verbatim>\<open>arg_rend()\<close>: the last argument is
  lowered first.
\<close>

fun LowerExpr :: "Scope \<Rightarrow> Expr \<Rightarrow> Codegen \<Rightarrow> error + Codegen"
and LowerArgs :: "Scope \<Rightarrow> Expr list \<Rightarrow> Codegen \<Rightarrow> error + Codegen" where
  "LowerExpr scope (RefExpr name) g = LowerRefExpr scope name g"
| "LowerExpr scope (BinaryExpr kind lhs rhs) g =
     (case LowerExpr scope lhs g of
        Inl e \<Rightarrow> Inl e
      | Inr g1 \<Rightarrow>
          (case LowerExpr scope rhs g1 of
             Inl e \<Rightarrow> Inl e
           | Inr g2 \<Rightarrow> (case kind of BinaryADD \<Rightarrow> EmitAdd g2)))"
| "LowerExpr scope (CallExpr callee args) g =
     (case LowerArgs scope args g of
        Inl e \<Rightarrow> Inl e
      | Inr g1 \<Rightarrow>
          (case LowerExpr scope callee g1 of
             Inl e \<Rightarrow> Inl e
           | Inr g2 \<Rightarrow>
               (let g3 = EmitCall (of_nat (length args)) g2
                in Inr (g3\<lparr>depth := depth g3 - of_nat (length args)\<rparr>))))"
| "LowerArgs scope [] g = Inr g"
| "LowerArgs scope (a # as) g =
     (case LowerArgs scope as g of
        Inl e \<Rightarrow> Inl e
      | Inr g1 \<Rightarrow> LowerExpr scope a g1)"

text \<open>
  \<^verbatim>\<open>LowerStmt\<close> with \<^verbatim>\<open>LowerBlockStmt\<close>, \<^verbatim>\<open>LowerWhileStmt\<close>, \<^verbatim>\<open>LowerExprStmt\<close> and
  \<^verbatim>\<open>LowerReturnStmt\<close>. \<open>LowerStmts\<close> is the loop over the statements of a block.
\<close>

fun LowerStmt :: "Scope \<Rightarrow> Stmt \<Rightarrow> Codegen \<Rightarrow> error + Codegen"
and LowerStmts :: "Scope \<Rightarrow> Stmt list \<Rightarrow> Codegen \<Rightarrow> error + Codegen" where
  "LowerStmt scope (BlockStmt body) g =
     (case LowerStmts (BlockScope scope) body g of
        Inl e \<Rightarrow> Inl e
      | Inr g1 \<Rightarrow>
          if depth g1 = depth g then Inr g1
          else Inl (AssertionFailed ''mismatched block depth on exit''))"
| "LowerStmt scope (WhileStmt cond stmt) g =
     (case MakeLabel g of (entry, ga) \<Rightarrow>
       (case MakeLabel ga of (exit, gb) \<Rightarrow>
         (case EmitLabel entry gb of
            Inl e \<Rightarrow> Inl e
          | Inr g1 \<Rightarrow>
              (case LowerExpr scope cond g1 of
                 Inl e \<Rightarrow> Inl e
               | Inr g2 \<Rightarrow>
                   (case EmitJumpFalse exit g2 of
                      Inl e \<Rightarrow> Inl e
                    | Inr g3 \<Rightarrow>
                        (case LowerStmt scope stmt g3 of
                           Inl e \<Rightarrow> Inl e
                         | Inr g4 \<Rightarrow> EmitLabel exit (EmitJump entry g4)))))))"
| "LowerStmt scope (ExprStmt expr) g =
     (case LowerExpr scope expr g of
        Inl e \<Rightarrow> Inl e
      | Inr g1 \<Rightarrow> EmitPop g1)"
| "LowerStmt scope (ReturnStmt expr) g =
     (case LowerExpr scope expr g of
        Inl e \<Rightarrow> Inl e
      | Inr g1 \<Rightarrow> EmitReturn g1)"
| "LowerStmts scope [] g = Inr g"
| "LowerStmts scope (s # ss) g =
     (case LowerStmt scope s g of
        Inl e \<Rightarrow> Inl e
      | Inr g1 \<Rightarrow> LowerStmts scope ss g1)"

definition LowerBlockStmt :: "Scope \<Rightarrow> Stmt list \<Rightarrow> Codegen \<Rightarrow> error + Codegen" where
  "LowerBlockStmt scope body g = LowerStmt scope (BlockStmt body) g"

text \<open>
  The loop of \<^verbatim>\<open>LowerFuncDecl\<close> that numbers the arguments: \<^verbatim>\<open>args[it->first] =
  args.size()\<close> takes the size before the name is inserted, and a name that is already
  there keeps its entry and gets the new number.
\<close>

fun number_args :: "(string \<times> string) list \<Rightarrow> (string \<times> 32 word) list \<Rightarrow> (string \<times> 32 word) list" where
  "number_args [] m = m"
| "number_args (a # as) m = number_args as (AList.update (fst a) (of_nat (length m)) m)"

definition LowerFuncDecl :: "Scope \<Rightarrow> FuncDecl \<Rightarrow> Codegen \<Rightarrow> error + Codegen" where
  "LowerFuncDecl scope decl g =
     (case funcs g (fd_name decl) of
        None \<Rightarrow> Inl (AssertionFailed ''missing function label'')
      | Some entry \<Rightarrow>
          (case EmitLabel entry g of
             Inl e \<Rightarrow> Inl e
           | Inr g1 \<Rightarrow>
               if depth g1 \<noteq> 0 then Inl (AssertionFailed ''invalid stack depth in global scope'')
               else
                 (case LowerBlockStmt
                         (FuncScope scope (map_of (number_args (fd_args decl) [])))
                         (fd_body decl) (g1\<lparr>func := Some decl\<rparr>) of
                    Inl e \<Rightarrow> Inl e
                  | Inr g2 \<Rightarrow>
                      if depth g2 \<noteq> 0
                      then Inl (AssertionFailed ''invalid stack depth on function exit'')
                      else Inr (g2\<lparr>func := None\<rparr>))))"

text \<open>
  The three loops of \<^verbatim>\<open>Translate\<close> over the items of the module: the declarations are
  recorded, the top-level statements are lowered, and, after \<^verbatim>\<open>STOP\<close>, the functions.
  \<^verbatim>\<open>MakeLabel()\<close> is called for every function declaration, also when \<^verbatim>\<open>emplace\<close>
  finds the name taken.
\<close>

fun record_decls ::
  "Module \<Rightarrow> (string \<rightharpoonup> RuntimeFn) \<Rightarrow> Codegen \<Rightarrow> error + (string \<rightharpoonup> RuntimeFn) \<times> Codegen" where
  "record_decls [] protos g = Inr (protos, g)"
| "record_decls (TopProto proto # items) protos g =
     (case kRuntimeFns (pd_primitive proto) of
        None \<Rightarrow> Inl (AssertionFailed ''missing prototype'')
      | Some fn \<Rightarrow> record_decls items (emplace (pd_name proto) fn protos) g)"
| "record_decls (TopFunc f # items) protos g =
     (case MakeLabel g of (entry, g1) \<Rightarrow>
        record_decls items protos (g1\<lparr>funcs := emplace (fd_name f) entry (funcs g1)\<rparr>))"
| "record_decls (TopStmt s # items) protos g = record_decls items protos g"

fun lower_top_stmts :: "Scope \<Rightarrow> Module \<Rightarrow> Codegen \<Rightarrow> error + Codegen" where
  "lower_top_stmts global [] g = Inr g"
| "lower_top_stmts global (TopStmt s # items) g =
     (case LowerStmt global s g of
        Inl e \<Rightarrow> Inl e
      | Inr g1 \<Rightarrow> lower_top_stmts global items g1)"
| "lower_top_stmts global (_ # items) g = lower_top_stmts global items g"

fun lower_funcs :: "Scope \<Rightarrow> Module \<Rightarrow> Codegen \<Rightarrow> error + Codegen" where
  "lower_funcs global [] g = Inr g"
| "lower_funcs global (TopFunc f # items) g =
     (case LowerFuncDecl global f g of
        Inl e \<Rightarrow> Inl e
      | Inr g1 \<Rightarrow> lower_funcs global items g1)"
| "lower_funcs global (_ # items) g = lower_funcs global items g"

text \<open>
  \<^verbatim>\<open>Translate\<close>, up to the move of the code into the \<^verbatim>\<open>Program\<close>: \<open>Translate_from\<close>
  gives the generator as it is then, \<open>Translate\<close> the code of a fresh generator.
\<close>

definition Translate_from :: "Codegen \<Rightarrow> Module \<Rightarrow> error + Codegen" where
  "Translate_from g items =
     (if code g \<noteq> [] then Inl (AssertionFailed ''expected empty code section'')
      else
        (case record_decls items Map.empty g of
           Inl e \<Rightarrow> Inl e
         | Inr (protos, g1) \<Rightarrow>
             (case lower_top_stmts (GlobalScope (funcs g1) protos) items g1 of
                Inl e \<Rightarrow> Inl e
              | Inr g2 \<Rightarrow>
                  lower_funcs (GlobalScope (funcs g1) protos) items (Emit_Opcode STOP g2))))"

definition Translate :: "Module \<Rightarrow> error + byte list" where
  "Translate items =
     (case Translate_from Codegen_init items of
        Inl e \<Rightarrow> Inl e
      | Inr g \<Rightarrow> Inr (code g))"

section \<open>The fixup table and the code\<close>

text \<open>The eight-byte operand at an offset of the code, as \<^verbatim>\<open>Read<size_t>\<close> decodes it.\<close>

definition operand_at :: "byte list \<Rightarrow> nat \<Rightarrow> nat" where
  "operand_at c loc = le_decode (take 8 (drop loc c))"

text \<open>
  Operand slots at the offsets \<open>S\<close> of a code: each lies inside the code, holds a value
  of at most 32 bits that is no larger than the length of the code, and no two of them
  overlap.
\<close>

definition slots_ok :: "byte list \<Rightarrow> nat set \<Rightarrow> bool" where
  "slots_ok c S \<longleftrightarrow>
     (\<forall>p\<in>S. p + 8 \<le> length c \<and> operand_at c p < 2 ^ 32 \<and> operand_at c p \<le> length c) \<and>
     (\<forall>p\<in>S. \<forall>q\<in>S. p = q \<or> p + 8 \<le> q \<or> q + 8 \<le> p)"

text \<open>
  The offsets that the fixup table holds for a label (none when it has no entry), all the
  offsets of the table, the labels that have an address, and the labels that have offsets
  in the table but no address.
\<close>

definition fixups_of :: "Codegen \<Rightarrow> Label \<Rightarrow> nat list" where
  "fixups_of g l = (case fixups g l of None \<Rightarrow> [] | Some ls \<Rightarrow> ls)"

definition recorded :: "Codegen \<Rightarrow> nat set" where
  "recorded g = (\<Union>l. set (fixups_of g l))"

definition fixups_ok :: "Codegen \<Rightarrow> bool" where
  "fixups_ok g \<longleftrightarrow> slots_ok (code g) (recorded g)"

definition placed :: "Codegen \<Rightarrow> Label set" where
  "placed g = dom (labelToAddress g)"

definition pending :: "Codegen \<Rightarrow> Label set" where
  "pending g = {l. fixups_of g l \<noteq> [] \<and> labelToAddress g l = None}"

text \<open>
  What every step of the generator keeps, relative to a set \<open>F\<close> of labels that may
  stay pending: the function labels are the same, a placed label stays placed, no label
  outside \<open>F\<close> becomes pending, and the slots of the table stay well-formed.
\<close>

definition advances :: "Label set \<Rightarrow> Codegen \<Rightarrow> Codegen \<Rightarrow> bool" where
  "advances F g g' \<longleftrightarrow>
     funcs g' = funcs g \<and> placed g \<subseteq> placed g' \<and> pending g' \<subseteq> pending g \<union> F \<and>
     (fixups_ok g \<longrightarrow> fixups_ok g')"


text \<open>What is looked at in a generator: its code, and a label with one of its offsets.\<close>

definition observe ::
  "Label \<Rightarrow> nat \<Rightarrow> Codegen \<Rightarrow> byte list \<times> nat list option \<times> 32 word option \<times> nat" where
  "observe l loc g = (code g, fixups g l, labelToAddress g l, operand_at (code g) loc)"

definition depth_and_code :: "Codegen \<Rightarrow> 32 word \<times> byte list" where
  "depth_and_code g = (depth g, code g)"

section \<open>Example programs\<close>

text \<open>
  Scenario A. The language has no integer literal (\<^verbatim>\<open>ParseTermExpr\<close> accepts identifiers
  only and \<open>Expr\<close> has no constant), so the two summands are read by a native input
  primitive:
  \<^verbatim>\<open>func add(a: int, b: int): int { return a + b }\<close>,
  \<^verbatim>\<open>func output(x: int): int = "print_int"\<close>,
  \<^verbatim>\<open>func input(): int = "read_int"\<close>,
  \<^verbatim>\<open>output(add(input(), input()))\<close>.
\<close>

definition add_decl :: FuncDecl where
  "add_decl =
     \<lparr>fd_name = ''add'', fd_args = [(''a'', ''int''), (''b'', ''int'')], fd_type = ''int'',
      fd_body = [ReturnStmt (BinaryExpr BinaryADD (RefExpr ''a'') (RefExpr ''b''))]\<rparr>"

definition output_decl :: ProtoDecl where
  "output_decl =
     \<lparr>pd_name = ''output'', pd_args = [(''x'', ''int'')], pd_type = ''int'',
      pd_primitive = ''print_int''\<rparr>"

definition input_decl :: ProtoDecl where
  "input_decl =
     \<lparr>pd_name = ''input'', pd_args = [], pd_type = ''int'', pd_primitive = ''read_int''\<rparr>"

definition scenario_A :: Module where
  "scenario_A =
     [TopFunc add_decl, TopProto output_decl, TopProto input_decl,
      TopStmt (ExprStmt (CallExpr (RefExpr ''output'')
        [CallExpr (RefExpr ''add'')
          [CallExpr (RefExpr ''input'') [], CallExpr (RefExpr ''input'') []]]))]"

text \<open>The bytecode of scenario A: the entry sequence, \<^verbatim>\<open>STOP\<close> at 41, \<^verbatim>\<open>add\<close> at 42.\<close>

definition scenario_A_code :: "byte list" where
  "scenario_A_code =
     [1, 0, 32, 0, 0, 0, 0, 0, 0, 4,
      1, 0, 32, 0, 0, 0, 0, 0, 0, 4,
      0, 42, 0, 0, 0, 0, 0, 0, 0, 4,
      1, 0, 16, 0, 0, 0, 0, 0, 0, 4,
      3, 9,
      2, 1, 0, 0, 0, 2, 3, 0, 0, 0, 5, 6, 0, 0, 0, 0, 2, 0, 0, 0]"

text \<open>
  The call \<^verbatim>\<open>output(input())\<close> of a native primitive with one argument, the scope in
  which \<^verbatim>\<open>Translate\<close> lowers it, and the code of the call.
\<close>

definition echo_call :: Expr where
  "echo_call = CallExpr (RefExpr ''output'') [CallExpr (RefExpr ''input'') []]"

definition echo_scope :: Scope where
  "echo_scope = GlobalScope Map.empty [''output'' \<mapsto> PrintInt, ''input'' \<mapsto> ReadInt]"

definition echo_module :: Module where
  "echo_module = [TopProto output_decl, TopProto input_decl, TopStmt (ExprStmt echo_call)]"

definition echo_code :: "byte list" where
  "echo_code =
     [1, 0, 32, 0, 0, 0, 0, 0, 0, 4,
      1, 0, 16, 0, 0, 0, 0, 0, 0, 4]"




text \<open>A generator that has emitted one jump to the label 1, which is not placed.\<close>

definition one_pending :: Codegen where
  "one_pending = EmitJump 1 Codegen_init"

text \<open>
  A function that prints its argument and returns it, called on an integer read from the
  input:
  \<^verbatim>\<open>func report(a: int): int { output(a); return a }\<close>, \<^verbatim>\<open>report(input())\<close>;
  and its bytecode: \<^verbatim>\<open>report\<close> starts at 22, the \<^verbatim>\<open>PEEK\<close> of \<^verbatim>\<open>return a\<close> is at 38.
\<close>

definition report_decl :: FuncDecl where
  "report_decl =
     \<lparr>fd_name = ''report'', fd_args = [(''a'', ''int'')], fd_type = ''int'',
      fd_body = [ExprStmt (CallExpr (RefExpr ''output'') [RefExpr ''a'']),
                 ReturnStmt (RefExpr ''a'')]\<rparr>"

definition report_module :: Module where
  "report_module =
     [TopProto output_decl, TopProto input_decl, TopFunc report_decl,
      TopStmt (ExprStmt (CallExpr (RefExpr ''report'') [CallExpr (RefExpr ''input'') []]))]"

definition report_code :: "byte list" where
  "report_code =
     [1, 0, 32, 0, 0, 0, 0, 0, 0, 4,
      0, 22, 0, 0, 0, 0, 0, 0, 0, 4,
      3, 9,
      2, 1, 0, 0, 0, 1, 0, 16, 0, 0, 0, 0, 0, 0, 4, 3,
      2, 1, 0, 0, 0, 6, 0, 0, 0, 0, 1, 0, 0, 0]"

section \<open>Properties\<close>

subsection \<open>Reading the code\<close>

lemma byte_opcode_inverse: "byte_opcode (opcode_byte op) = Some op"
  by (cases op) (simp_all add: byte_opcode_def)

lemma unat_advance_le: "unat (p + of_nat n :: 64 word) \<le> unat p + n"
proof -
  have "unat (p + of_nat n) = (unat p + unat (of_nat n :: 64 word)) mod 2 ^ 64"
    by (simp add: unat_word_ariths)
  also have "\<dots> \<le> unat p + unat (of_nat n :: 64 word)" by (rule mod_less_eq_dividend)
  also have "\<dots> \<le> unat p + n" by (simp add: unat_of_nat)
  finally show ?thesis .
qed

lemma unat_advance:
  assumes "unat p + n < 2 ^ 64"
  shows "unat (p + of_nat n :: 64 word) = unat p + n"
proof -
  have n: "unat (of_nat n :: 64 word) = n" using assms by (simp add: unat_of_nat)
  show ?thesis using assms by (simp add: unat_word_ariths n)
qed

lemma Read_ok:
  assumes "unat (pc s) + n \<le> length c" and "length c < 2 ^ 64"
  shows "Read c n s = Inr (take n (drop (unat (pc s)) c), s\<lparr>pc := pc s + of_nat n\<rparr>)"
proof -
  have "unat (pc s + of_nat n) \<le> length c"
    using unat_advance_le [of "pc s" n] assms(1) by linarith
  then show ?thesis using assms(1) by (simp add: Read_def)
qed

lemma Read_Opcode_ok:
  assumes "unat (pc s) < length c" and "length c < 2 ^ 64"
    and "c ! unat (pc s) = opcode_byte op"
  shows "Read_Opcode c s = Inr (Some op, s\<lparr>pc := pc s + 1\<rparr>)"
proof -
  have r: "Read c 1 s = Inr (take 1 (drop (unat (pc s)) c), s\<lparr>pc := pc s + of_nat 1\<rparr>)"
    using assms(1,2) by (intro Read_ok) simp_all
  have "drop (unat (pc s)) c = c ! unat (pc s) # drop (Suc (unat (pc s))) c"
    using assms(1) by (simp add: Cons_nth_drop_Suc)
  then have "hd (take 1 (drop (unat (pc s)) c)) = opcode_byte op"
    using assms(3) by simp
  then show ?thesis
    unfolding Read_Opcode_def bnd_def r ret_def by (simp add: byte_opcode_inverse)
qed

lemma le_decode_bound: "le_decode bs < 256 ^ length bs"
proof (induction bs)
  case Nil show ?case by simp
next
  case (Cons b bs)
  have "unat b < 256" using unsigned_less [of b, where 'a = nat] by simp
  then show ?case using Cons by simp
qed

lemma Read_size_t_ok:
  assumes "unat (pc s) + 8 \<le> length c" and "length c < 2 ^ 64"
  shows "Read_size_t c s =
    Inr (of_nat (le_decode (take 8 (drop (unat (pc s)) c))), s\<lparr>pc := pc s + 8\<rparr>)"
  using Read_ok [OF assms] by (simp add: Read_size_t_def bnd_def ret_def)

lemma Read_unsigned_ok:
  assumes "unat (pc s) + 4 \<le> length c" and "length c < 2 ^ 64"
  shows "Read_unsigned c s =
    Inr (of_nat (le_decode (take 4 (drop (unat (pc s)) c))), s\<lparr>pc := pc s + 4\<rparr>)"
  using Read_ok [OF assms] by (simp add: Read_unsigned_def bnd_def ret_def)

subsection \<open>Boolean coercion and the conditional branch\<close>

text \<open>
  Claim C8. The integer 0 is the only value that coerces to false: every other integer,
  every code address and every native identity coerces to true. \<^verbatim>\<open>JUMP_FALSE\<close>, with a
  value of any kind on top of the stack and its operand inside the code, pops the value
  and continues at the operand when the value coerces to false, behind the operand
  otherwise; it does not fail.
\<close>

theorem jump_false_coercion:
  assumes "length c < 2 ^ 64"
    and "unat (pc s) + 9 \<le> length c"
    and "c ! unat (pc s) = opcode_byte JUMP_FALSE"
    and "stack s = v # vs"
  shows "(truthy v \<longleftrightarrow> v \<noteq> VInt 0) \<and>
    Step c s = Inr (True,
      s\<lparr>pc := (if truthy v then pc s + 9
               else of_nat (le_decode (take 8 (drop (unat (pc s) + 1) c)))),
        stack := vs\<rparr>)"
proof -
  have t: "truthy v \<longleftrightarrow> v \<noteq> VInt 0" by (cases v) simp_all
  have op: "Read_Opcode c s = Inr (Some JUMP_FALSE, s\<lparr>pc := pc s + 1\<rparr>)"
    using assms by (intro Read_Opcode_ok) simp_all
  have u: "unat (pc s + 1) = unat (pc s) + 1"
    using unat_advance [of "pc s" 1] assms(1,2) by simp
  let ?s1 = "s\<lparr>pc := pc s + 1, stack := vs\<rparr>"
  have rd: "Read_size_t c ?s1 =
    Inr (of_nat (le_decode (take 8 (drop (unat (pc ?s1)) c))), ?s1\<lparr>pc := pc ?s1 + 8\<rparr>)"
    using assms(1,2) u by (intro Read_size_t_ok) simp_all
  have "Step c s = Inr (True,
      s\<lparr>pc := (if truthy v then pc s + 9
               else of_nat (le_decode (take 8 (drop (unat (pc s) + 1) c)))),
        stack := vs\<rparr>)"
    using rd u by (simp add: Step_def bnd_def op Pop_def assms(4) ret_def)
  with t show ?thesis by simp
qed


theorem jump_false_coercion_witness:
  "Step [7, 12, 0, 0, 0, 0, 0, 0, 0] \<lparr>pc = 0, stack = [VInt 0, VInt 4], cin = [], cout = []\<rparr> =
     Inr (True, \<lparr>pc = 12, stack = [VInt 4], cin = [], cout = []\<rparr>) \<and>
   Step [7, 12, 0, 0, 0, 0, 0, 0, 0] \<lparr>pc = 0, stack = [VAddr 0, VInt 4], cin = [], cout = []\<rparr> =
     Inr (True, \<lparr>pc = 9, stack = [VInt 4], cin = [], cout = []\<rparr>)"
  using jump_false_coercion [of "[7, 12, 0, 0, 0, 0, 0, 0, 0]"
      "\<lparr>pc = 0, stack = [VInt 0, VInt 4], cin = [], cout = []\<rparr>" "VInt 0" "[VInt 4]"]
    jump_false_coercion [of "[7, 12, 0, 0, 0, 0, 0, 0, 0]"
      "\<lparr>pc = 0, stack = [VAddr 0, VInt 4], cin = [], cout = []\<rparr>" "VAddr 0" "[VInt 4]"]
  by simp

subsection \<open>Calling an integer\<close>

text \<open>
  Claim C7. When \<^verbatim>\<open>CALL\<close> pops a value of kind \<^verbatim>\<open>INT\<close>, the run ends at once, whatever
  the number of iterations it was allowed, with the \<^verbatim>\<open>RuntimeError\<close> "cannot call
  integer"; the output at the end is the output at the failing instruction.
\<close>

theorem call_integer_throws:
  assumes "length c < 2 ^ 64"
    and "unat (pc s) < length c"
    and "c ! unat (pc s) = opcode_byte CALL"
    and "stack s = VInt i # vs"
  shows "Run (Suc n) c s =
    Failed (RuntimeError ''cannot call integer'') (s\<lparr>pc := pc s + 1, stack := vs\<rparr>) \<and>
    cout (s\<lparr>pc := pc s + 1, stack := vs\<rparr>) = cout s"
proof -
  have op: "Read_Opcode c s = Inr (Some CALL, s\<lparr>pc := pc s + 1\<rparr>)"
    using assms by (intro Read_Opcode_ok) simp_all
  have "Step c s = Inl (RuntimeError ''cannot call integer'', s\<lparr>pc := pc s + 1, stack := vs\<rparr>)"
    by (simp add: Step_def bnd_def op Pop_def assms(4) fail_def)
  then show ?thesis by simp
qed

theorem call_integer_throws_witness:
  "Run 5 [4, 9] \<lparr>pc = 0, stack = [VInt 3], cin = [], cout = [8]\<rparr> =
    Failed (RuntimeError ''cannot call integer'') \<lparr>pc = 1, stack = [], cin = [], cout = [8]\<rparr>"
  using call_integer_throws [of "[4, 9]" "\<lparr>pc = 0, stack = [VInt 3], cin = [], cout = [8]\<rparr>" 3 "[]" 4]
  by simp

subsection \<open>Adding a value that is no integer\<close>

text \<open>
  Claim C6 as stated fails: \<^verbatim>\<open>ADD\<close> on an address does not end with the
  \<^verbatim>\<open>RuntimeError\<close> that \<^verbatim>\<open>CALL\<close> on an integer throws, but with the failed assertion
  of \<^verbatim>\<open>PopInt\<close>.
\<close>

theorem add_non_integer_counterexample:
  "Run 1 [opcode_byte ADD] \<lparr>pc = 0, stack = [VInt 1, VAddr 7], cin = [], cout = []\<rparr> =
     Failed (AssertionFailed ''v.Kind == Value::Kind::INT'')
       \<lparr>pc = 1, stack = [], cin = [], cout = []\<rparr> \<and>
   Run 1 [opcode_byte CALL] \<lparr>pc = 0, stack = [VInt 1, VAddr 7], cin = [], cout = []\<rparr> =
     Failed (RuntimeError ''cannot call integer'')
       \<lparr>pc = 1, stack = [VAddr 7], cin = [], cout = []\<rparr>"
  by (simp add: Step_def bnd_def Read_Opcode_def Read_def ret_def fail_def byte_opcode_def
      PopInt_def Pop_def)

text \<open>
  Claim C6, amended. When \<^verbatim>\<open>ADD\<close> is executed and one of the two operands is not an
  integer, the run ends at once with the failed assertion of \<^verbatim>\<open>PopInt\<close>: the right
  operand is popped, and the left one too when the right one was an integer; no sum is
  pushed.
\<close>

theorem add_non_integer_asserts:
  assumes "length c < 2 ^ 64"
    and "unat (pc s) < length c"
    and "c ! unat (pc s) = opcode_byte ADD"
    and "stack s = rhs # lhs # vs"
    and "\<not> is_VInt rhs \<or> \<not> is_VInt lhs"
  shows "Run (Suc n) c s =
    Failed (AssertionFailed ''v.Kind == Value::Kind::INT'')
      (s\<lparr>pc := pc s + 1, stack := (if is_VInt rhs then vs else lhs # vs)\<rparr>)"
proof -
  have op: "Read_Opcode c s = Inr (Some ADD, s\<lparr>pc := pc s + 1\<rparr>)"
    using assms by (intro Read_Opcode_ok) simp_all
  have "Step c s = Inl (AssertionFailed ''v.Kind == Value::Kind::INT'',
      s\<lparr>pc := pc s + 1, stack := (if is_VInt rhs then vs else lhs # vs)\<rparr>)"
    using assms(5)
    by (cases rhs; cases lhs)
       (simp_all add: Step_def bnd_def op PopInt_def Pop_def assms(4) fail_def ret_def)
  then show ?thesis by simp
qed

theorem add_non_integer_asserts_witness:
  "Run 3 [5, 9] \<lparr>pc = 0, stack = [VInt 1, VAddr 7], cin = [], cout = []\<rparr> =
     Failed (AssertionFailed ''v.Kind == Value::Kind::INT'')
       \<lparr>pc = 1, stack = [], cin = [], cout = []\<rparr>"
  using add_non_integer_asserts [of "[5, 9]"
      "\<lparr>pc = 0, stack = [VInt 1, VAddr 7], cin = [], cout = []\<rparr>" "VInt 1" "VAddr 7" "[]" 2]
  by simp

subsection \<open>Operands and the addressing of arguments\<close>

lemma length_le_encode: "length (le_encode n v) = n"
  by (induction n arbitrary: v) simp_all

lemma le_decode_encode: "le_decode (le_encode n v) = v mod 256 ^ n"
proof (induction n arbitrary: v)
  case 0 show ?case by simp
next
  case (Suc n)
  have "unat (of_nat (v mod 256) :: byte) = v mod 256"
    by (simp add: unat_of_nat)
  then show ?case
    by (simp add: Suc mod_mult2_eq)
qed

lemma le_encode_4:
  "le_encode 4 v = [of_nat (v mod 256), of_nat (v div 256 mod 256),
     of_nat (v div 256 div 256 mod 256), of_nat (v div 256 div 256 div 256 mod 256)]"
proof -
  have e: "(4::nat) = Suc (Suc (Suc (Suc 0)))" by simp
  show ?thesis by (simp only: e le_encode.simps)
qed

lemma le_encode_8:
  "le_encode 8 v = le_encode 4 v @ le_encode 4 (v div 256 div 256 div 256 div 256)"
proof -
  have e: "(4::nat) = Suc (Suc (Suc (Suc 0)))" by simp
  have f: "(8::nat) = Suc (Suc (Suc (Suc (Suc (Suc (Suc (Suc 0)))))))" by simp
  show ?thesis by (simp only: e f le_encode.simps append.simps)
qed

lemma nth_append_code: "i < length xs \<Longrightarrow> (xs @ ys) ! i = xs ! i"
  by (simp add: nth_append)

lemma Read_unsigned_at:
  assumes "length c < 2 ^ 64" and "unat (pc s) + 4 \<le> length c"
    and "take 4 (drop (unat (pc s)) c) = le_encode 4 v"
  shows "Read_unsigned c s = Inr (of_nat v, s\<lparr>pc := pc s + 4\<rparr>)"
proof -
  have "(of_nat (v mod 2 ^ 32) :: 32 word) = of_nat v"
    by (simp add: word_of_nat_eq_iff take_bit_eq_mod)
  then show ?thesis
    using Read_unsigned_ok [OF assms(2,1)] by (simp add: assms(3) le_decode_encode)
qed

lemma Read_size_t_at:
  assumes "length c < 2 ^ 64" and "unat (pc s) + 8 \<le> length c"
    and "take 8 (drop (unat (pc s)) c) = le_encode 8 v"
  shows "Read_size_t c s = Inr (of_nat v, s\<lparr>pc := pc s + 8\<rparr>)"
proof -
  have "(of_nat (v mod 2 ^ 64) :: 64 word) = of_nat v"
    by (simp add: word_of_nat_eq_iff take_bit_eq_mod)
  then show ?thesis
    using Read_size_t_ok [OF assms(2,1)] by (simp add: assms(3) le_decode_encode)
qed

lemma Step_PEEK:
  assumes len: "length c < 2 ^ 64"
    and pc: "unat (pc s) + 5 \<le> length c"
    and ins: "take 5 (drop (unat (pc s)) c) = opcode_byte PEEK # le_encode 4 idx"
    and idx: "idx < 2 ^ 32" "idx < length (stack s)"
  shows "Step c s = Inr (True, s\<lparr>pc := pc s + 5, stack := stack s ! idx # stack s\<rparr>)"
proof -
  have "take 5 (drop (unat (pc s)) c) ! 0 = c ! unat (pc s)"
    using pc by simp
  then have b: "c ! unat (pc s) = opcode_byte PEEK" using ins by simp
  have op: "Read_Opcode c s = Inr (Some PEEK, s\<lparr>pc := pc s + 1\<rparr>)"
    using len pc b by (intro Read_Opcode_ok) simp_all
  have u: "unat (pc s + 1) = unat (pc s) + 1"
    using unat_advance [of "pc s" 1] len pc by simp
  have "take 4 (drop (Suc (unat (pc s))) c) = tl (take 5 (drop (unat (pc s)) c))"
    by (simp add: tl_take drop_Suc tl_drop)
  then have opd: "take 4 (drop (Suc (unat (pc s))) c) = le_encode 4 idx"
    using ins by simp
  have "Read_unsigned c (s\<lparr>pc := pc s + 1\<rparr>) =
      Inr (of_nat idx, s\<lparr>pc := pc s + 1\<rparr>\<lparr>pc := pc (s\<lparr>pc := pc s + 1\<rparr>) + 4\<rparr>)"
    using len pc u opd by (intro Read_unsigned_at) simp_all
  then have rd: "Read_unsigned c (s\<lparr>pc := pc s + 1\<rparr>) = Inr (of_nat idx, s\<lparr>pc := pc s + 5\<rparr>)"
    by simp
  have un: "unat (of_nat idx :: 32 word) = idx"
    using idx(1) by (simp add: unat_of_nat)
  show ?thesis
    unfolding Step_def bnd_def op by (simp add: rd un idx(2) Push_def ret_def)
qed

text \<open>
  The addressing of arguments as the generator means it. A reference that resolves to the
  argument binding with slot \<open>index\<close>, lowered at static depth \<open>depth g\<close>, emits
  \<^verbatim>\<open>PEEK\<close> with the operand \<open>depth g + index + 1\<close> (taken not to wrap in 32 bits) and
  raises the depth by one. On a stack that holds exactly \<open>depth g\<close> temporaries above a
  return address and the arguments, the instruction pushes a copy of the argument with
  that slot, and removes nothing.
\<close>

lemma argument_peek:
  assumes "Lookup scope name = Inr (ARG index)"
    and "LowerExpr scope (RefExpr name) g = Inr g'"
    and "c = code g' @ tail" and "length c < 2 ^ 64"
    and "pc s = of_nat (length (code g))"
    and "stack s = temps @ VAddr ra # args @ rest"
    and "length temps = unat (depth g)"
    and "unat index < length args"
    and "unat (depth g) + unat index + 1 < 2 ^ 32"
  shows "code g' = code g @ opcode_byte PEEK # le_encode 4 (unat (depth g) + unat index + 1) \<and>
    depth g' = depth g + 1 \<and>
    Step c s = Inr (True, s\<lparr>pc := pc s + 5, stack := args ! unat index # stack s\<rparr>)"
proof -
  let ?idx = "unat (depth g) + unat index + 1"
  have w: "unat (depth g + index + 1) = ?idx"
    using assms(9) by (simp add: unat_word_ariths)
  have g': "g' = EmitPeek (depth g + index + 1) g"
    using assms(1,2) by (simp add: LowerRefExpr_def)
  then have cd: "code g' = code g @ opcode_byte PEEK # le_encode 4 ?idx"
    by (simp add: EmitPeek_def Emit_unsigned_def Emit_Opcode_def Emit_def w)
  have dp: "depth g' = depth g + 1"
    using g' by (simp add: EmitPeek_def Emit_unsigned_def Emit_Opcode_def Emit_def)
  have lc: "length (code g) + 5 \<le> length c"
    using assms(3) cd by (simp add: length_le_encode)
  then have up: "unat (pc s) = length (code g)"
    using assms(4,5) by (simp add: unat_of_nat)
  have ins: "take 5 (drop (unat (pc s)) c) = opcode_byte PEEK # le_encode 4 ?idx"
    using assms(3) cd by (simp add: up length_le_encode)
  have nth: "stack s ! ?idx = args ! unat index"
    using assms(6,7,8) by (simp add: nth_append)
  have "Step c s = Inr (True, s\<lparr>pc := pc s + 5, stack := stack s ! ?idx # stack s\<rparr>)"
    using assms(4,6,7,8,9) lc
    by (intro Step_PEEK ins) (simp_all add: up)
  with cd dp nth show ?thesis by simp
qed



subsection \<open>Call and return\<close>

lemma Step_CALL_addr:
  assumes "length c < 2 ^ 64" and "unat (pc s) < length c"
    and "c ! unat (pc s) = opcode_byte CALL"
    and "stack s = VAddr entry # vs"
  shows "Step c s = Inr (True, s\<lparr>pc := entry, stack := VAddr (pc s + 1) # vs\<rparr>)"
proof -
  have op: "Read_Opcode c s = Inr (Some CALL, s\<lparr>pc := pc s + 1\<rparr>)"
    using assms by (intro Read_Opcode_ok) simp_all
  show ?thesis
    unfolding Step_def bnd_def op by (simp add: Pop_def assms(4) Push_def ret_def)
qed

lemma Step_RET:
  assumes len: "length c < 2 ^ 64"
    and pc: "unat (pc s) + 9 \<le> length c"
    and ins: "take 9 (drop (unat (pc s)) c) = opcode_byte RET # le_encode 4 d @ le_encode 4 k"
    and d: "d < 2 ^ 32" and k: "k < 2 ^ 32"
    and st: "stack s = v # temps @ VAddr ra # args @ rest"
    and lt: "length temps = d" and la: "length args = k"
  shows "Step c s = Inr (True, s\<lparr>pc := ra, stack := v # rest\<rparr>)"
proof -
  have "take 9 (drop (unat (pc s)) c) ! 0 = c ! unat (pc s)"
    using pc by simp
  then have b: "c ! unat (pc s) = opcode_byte RET" using ins by simp
  have op: "Read_Opcode c s = Inr (Some RET, s\<lparr>pc := pc s + 1\<rparr>)"
    using len pc b by (intro Read_Opcode_ok) simp_all
  have u1: "unat (pc s + 1) = unat (pc s) + 1"
    using unat_advance [of "pc s" 1] len pc by simp
  have u5: "unat (pc s + 5) = unat (pc s) + 5"
    using unat_advance [of "pc s" 5] len pc by simp
  have "take 8 (drop (Suc (unat (pc s))) c) = tl (take 9 (drop (unat (pc s)) c))"
    by (simp add: tl_take drop_Suc tl_drop)
  then have opds: "take 8 (drop (Suc (unat (pc s))) c) = le_encode 4 d @ le_encode 4 k"
    using ins by simp
  have "take 4 (drop (Suc (unat (pc s))) c) = take 4 (take 8 (drop (Suc (unat (pc s))) c))"
    by simp
  then have o1: "take 4 (drop (Suc (unat (pc s))) c) = le_encode 4 d"
    unfolding opds by (simp add: length_le_encode)
  have "take 4 (drop (unat (pc s) + 5) c) = drop 4 (take 8 (drop (Suc (unat (pc s))) c))"
    by (simp add: drop_take add.commute)
  then have o2: "take 4 (drop (unat (pc s) + 5) c) = le_encode 4 k"
    unfolding opds by (simp add: length_le_encode)
  have "Read_unsigned c (s\<lparr>pc := pc s + 1\<rparr>) =
      Inr (of_nat d, s\<lparr>pc := pc s + 1\<rparr>\<lparr>pc := pc (s\<lparr>pc := pc s + 1\<rparr>) + 4\<rparr>)"
    using len pc u1 o1 by (intro Read_unsigned_at) simp_all
  then have rd1: "Read_unsigned c (s\<lparr>pc := pc s + 1\<rparr>) = Inr (of_nat d, s\<lparr>pc := pc s + 5\<rparr>)"
    by simp
  have "Read_unsigned c (s\<lparr>pc := pc s + 5\<rparr>) =
      Inr (of_nat k, s\<lparr>pc := pc s + 5\<rparr>\<lparr>pc := pc (s\<lparr>pc := pc s + 5\<rparr>) + 4\<rparr>)"
    using len pc u5 o2 by (intro Read_unsigned_at) simp_all
  then have rd2: "Read_unsigned c (s\<lparr>pc := pc s + 5\<rparr>) = Inr (of_nat k, s\<lparr>pc := pc s + 9\<rparr>)"
    by simp
  have ud: "unat (of_nat d :: 32 word) = d" using d by (simp add: unat_of_nat)
  have uk: "unat (of_nat k :: 32 word) = k" using k by (simp add: unat_of_nat)
  show ?thesis
    unfolding Step_def bnd_def op
    by (simp add: rd1 rd2 ud uk Pop_def PopAddr_def bnd_def st Shrink_def lt la Push_def ret_def)
qed

lemma EmitReturn_code:
  assumes "EmitReturn g = Inr g'" and "func g = Some decl"
  shows "code g' = code g @ opcode_byte RET # le_encode 4 (unat (depth g - 1)) @
      le_encode 4 (unat (of_nat (length (fd_args decl)) :: 32 word))"
  using assms
  by (auto simp: EmitReturn_def Let_def Emit_unsigned_def Emit_Opcode_def Emit_def
      split: if_splits)

text \<open>
  The unwinding of a call as the generator means it. \<^verbatim>\<open>CALL\<close> on the address of a
  function, with the \<open>k\<close> arguments below it, replaces the address by the resumption
  address and leaves the arguments. The \<^verbatim>\<open>RET\<close> that \<^verbatim>\<open>EmitReturn\<close> writes for a
  function with \<open>k\<close> declared arguments, on a stack that holds the return value and
  exactly the temporaries counted by the static depth above such a frame, resumes behind
  the call with the stack that was there before the arguments were pushed, plus the
  return value.
\<close>

lemma call_return_symmetry:
  assumes "length c < 2 ^ 64"
    and "unat (pc s) < length c" and "c ! unat (pc s) = opcode_byte CALL"
    and "stack s = VAddr entry # args @ rest"
    and "func g = Some decl" and "length args = length (fd_args decl)"
    and "length args < 2 ^ 32"
    and "EmitReturn g = Inr g'" and "c = code g' @ tail"
    and "pc t = of_nat (length (code g))"
    and "stack t = v # temps @ VAddr (pc s + 1) # args @ rest"
    and "length temps + 1 = unat (depth g)"
  shows "Step c s = Inr (True, s\<lparr>pc := entry, stack := VAddr (pc s + 1) # args @ rest\<rparr>) \<and>
    Step c t = Inr (True, t\<lparr>pc := pc s + 1, stack := v # rest\<rparr>) \<and>
    length (v # rest) = length rest + 1"
proof -
  have call: "Step c s = Inr (True, s\<lparr>pc := entry, stack := VAddr (pc s + 1) # args @ rest\<rparr>)"
    using assms(1-4) by (rule Step_CALL_addr)
  have d0: "depth g \<noteq> 0" using assms(12) by (cases "depth g = 0") simp_all
  then have "1 \<le> depth g" by (simp add: word_le_nat_alt Suc_le_eq unat_gt_0)
  then have ud: "unat (depth g - 1) = length temps"
    using assms(12) by (simp add: unat_sub)
  have uk: "unat (of_nat (length (fd_args decl)) :: 32 word) = length args"
    using assms(6,7) by (simp add: unat_of_nat)
  have cd: "code g' = code g @ opcode_byte RET # le_encode 4 (length temps) @ le_encode 4 (length args)"
    using EmitReturn_code [OF assms(8,5)] by (simp add: ud uk)
  have lc: "length (code g) + 9 \<le> length c"
    using assms(9) cd by (simp add: length_le_encode)
  then have up: "unat (pc t) = length (code g)"
    using assms(1,10) by (simp add: unat_of_nat)
  have ins: "take 9 (drop (unat (pc t)) c) =
      opcode_byte RET # le_encode 4 (length temps) @ le_encode 4 (length args)"
    using assms(9) cd by (simp add: up length_le_encode)
  have lt: "length temps < 2 ^ 32"
    using assms(12) unsigned_less [of "depth g", where 'a = nat] by simp
  have "Step c t = Inr (True, t\<lparr>pc := pc s + 1, stack := v # rest\<rparr>)"
    using assms(1,7,11) lc lt
    by (intro Step_RET [where d = "length temps" and k = "length args" and temps = temps and args = args] ins)
       (simp_all add: up)
  with call show ?thesis by simp
qed

subsection \<open>Patching operands in the code\<close>

lemma le_decode_append: "le_decode (xs @ ys) = le_decode xs + 256 ^ length xs * le_decode ys"
  by (induction xs) (simp_all add: algebra_simps)

lemma length_patch:
  "p + length bs \<le> length c \<Longrightarrow> length (patch c p bs) = length c"
  by (simp add: patch_def)

lemma take_drop_patch_same:
  "p + length bs \<le> length c \<Longrightarrow> take (length bs) (drop p (patch c p bs)) = bs"
  by (simp add: patch_def)

lemma drop_patch_after:
  "p + length bs \<le> length c \<Longrightarrow> p + length bs \<le> q \<Longrightarrow> drop q (patch c p bs) = drop q c"
  by (simp add: patch_def)

lemma take_drop_patch_before:
  assumes "p + length bs \<le> length c" and "q + n \<le> p"
  shows "take n (drop q (patch c p bs)) = take n (drop q c)"
proof -
  have "drop q (patch c p bs) = drop q (take p c) @ bs @ drop (p + length bs) c"
    using assms by (simp add: patch_def)
  moreover have "n \<le> length (drop q (take p c))"
    using assms by simp
  ultimately have "take n (drop q (patch c p bs)) = take n (drop q (take p c))"
    by simp
  also have "drop q (take p c) = take (p - q) (drop q c)"
    by (simp add: drop_take)
  also have "take n (take (p - q) (drop q c)) = take n (drop q c)"
    using assms by (simp add: min_def)
  finally show ?thesis .
qed

lemma operand_split:
  "operand_at c p = le_decode (take 4 (drop p c)) +
     256 ^ length (take 4 (drop p c)) * le_decode (take 4 (drop (p + 4) c))"
proof -
  have "take 8 (drop p c) = take 4 (drop p c) @ take 4 (drop (p + 4) c)"
    using take_add [of 4 4 "drop p c"] by (simp add: add.commute)
  then show ?thesis by (simp add: operand_at_def le_decode_append)
qed

lemma operand_high_zero:
  assumes "p + 8 \<le> length c" and "operand_at c p < 2 ^ 32"
  shows "le_decode (take 4 (drop (p + 4) c)) = 0"
proof (rule ccontr)
  assume "le_decode (take 4 (drop (p + 4) c)) \<noteq> 0"
  then have "1 \<le> le_decode (take 4 (drop (p + 4) c))" by simp
  moreover have "length (take 4 (drop p c)) = 4" using assms(1) by simp
  ultimately have "(256::nat) ^ 4 \<le> operand_at c p"
    by (simp add: operand_split)
  with assms(2) show False by simp
qed

lemma operand_patch_same:
  assumes "p + 8 \<le> length c" and "operand_at c p < 2 ^ 32"
  shows "operand_at (patch c p (le_encode 4 a)) p = a mod 2 ^ 32"
proof -
  let ?c = "patch c p (le_encode 4 a)"
  have l: "p + length (le_encode 4 a) \<le> length c" using assms(1) by (simp add: length_le_encode)
  have lo: "take 4 (drop p ?c) = le_encode 4 a"
    using take_drop_patch_same [OF l] by (simp add: length_le_encode)
  have hi: "drop (p + 4) ?c = drop (p + 4) c"
    using l by (intro drop_patch_after) (simp_all add: length_le_encode)
  have z: "le_decode (take 4 (drop (p + 4) c)) = 0"
    using assms by (rule operand_high_zero)
  show ?thesis
    by (simp add: operand_split [of ?c p] lo hi z le_decode_encode)
qed

lemma operand_patch_other:
  assumes "p + 8 \<le> length c" and "q + 8 \<le> p \<or> p + 8 \<le> q"
  shows "operand_at (patch c p (le_encode 4 a)) q = operand_at c q"
proof -
  have l: "p + length (le_encode 4 a) \<le> length c" using assms(1) by (simp add: length_le_encode)
  from assms(2) show ?thesis
  proof
    assume "q + 8 \<le> p"
    then show ?thesis
      using take_drop_patch_before [OF l, of q 8] by (simp add: operand_at_def)
  next
    assume "p + 8 \<le> q"
    then have "drop q (patch c p (le_encode 4 a)) = drop q c"
      using l by (intro drop_patch_after) (simp_all add: length_le_encode)
    then show ?thesis by (simp add: operand_at_def)
  qed
qed

lemma operand_append:
  "p + 8 \<le> length c \<Longrightarrow> operand_at (c @ bs) p = operand_at c p"
  by (simp add: operand_at_def)

lemma operand_new_zero: "operand_at (c @ le_encode 8 0) (length c) = 0"
  by (simp add: operand_at_def le_encode_8 le_encode_4)

lemma slots_ok_append: "slots_ok c S \<Longrightarrow> slots_ok (c @ bs) S"
  unfolding slots_ok_def
  by (auto simp: operand_append intro: trans_le_add1)

lemma slots_ok_new: 
  assumes "slots_ok c S"
  shows "slots_ok (c @ le_encode 8 0) (insert (length c) S)"
proof -
  have a: "slots_ok (c @ le_encode 8 0) S" using assms by (rule slots_ok_append)
  have n: "\<forall>p\<in>S. p + 8 \<le> length c" using assms by (simp add: slots_ok_def)
  show ?thesis
    using a n unfolding slots_ok_def
    by (auto simp: operand_new_zero length_le_encode)
qed

lemma slots_ok_patch:
  assumes "slots_ok c S" and "p \<in> S" and "a \<le> length c"
  shows "slots_ok (patch c p (le_encode 4 a)) S"
proof -
  let ?c = "patch c p (le_encode 4 a)"
  have p8: "p + 8 \<le> length c" and plt: "operand_at c p < 2 ^ 32"
    using assms(1,2) by (auto simp: slots_ok_def)
  have len: "length ?c = length c"
    using p8 by (intro length_patch) (simp add: length_le_encode)
  have same: "operand_at ?c p = a mod 2 ^ 32"
    using p8 plt by (rule operand_patch_same)
  have other: "operand_at ?c q = operand_at c q" if "q \<in> S" "q \<noteq> p" for q
  proof -
    have "q + 8 \<le> p \<or> p + 8 \<le> q"
      using assms(1,2) that by (auto simp: slots_ok_def)
    then show ?thesis using p8 by (intro operand_patch_other)
  qed
  have le: "a mod 2 ^ 32 \<le> length c"
    using assms(3) mod_less_eq_dividend [of a "2 ^ 32"] by linarith
  have "\<forall>q\<in>S. q + 8 \<le> length ?c \<and> operand_at ?c q < 2 ^ 32 \<and> operand_at ?c q \<le> length ?c"
  proof
    fix q assume q: "q \<in> S"
    show "q + 8 \<le> length ?c \<and> operand_at ?c q < 2 ^ 32 \<and> operand_at ?c q \<le> length ?c"
    proof (cases "q = p")
      case True
      then show ?thesis using p8 same le by (simp add: len)
    next
      case False
      then show ?thesis using other [OF q False] assms(1) q by (simp add: len slots_ok_def)
    qed
  qed
  then show ?thesis using assms(1) unfolding slots_ok_def by blast
qed

text \<open>The loop of EmitLabel over the recorded offsets.\<close>

lemma patch_all:
  assumes "slots_ok c S" and "set locs \<subseteq> S" and "a \<le> length c"
  shows "slots_ok (foldl (\<lambda>c loc. patch c loc (le_encode 4 a)) c locs) S \<and>
    length (foldl (\<lambda>c loc. patch c loc (le_encode 4 a)) c locs) = length c \<and>
    (\<forall>p\<in>set locs. operand_at (foldl (\<lambda>c loc. patch c loc (le_encode 4 a)) c locs) p = a mod 2 ^ 32) \<and>
    (\<forall>q\<in>S - set locs. operand_at (foldl (\<lambda>c loc. patch c loc (le_encode 4 a)) c locs) q = operand_at c q)"
  using assms
proof (induction locs arbitrary: c rule: rev_induct)
  case Nil
  then show ?case by simp
next
  case (snoc x xs)
  let ?f = "\<lambda>c loc. patch c loc (le_encode 4 a)"
  let ?c = "foldl ?f c xs"
  have ih: "slots_ok ?c S" "length ?c = length c"
    "\<forall>p\<in>set xs. operand_at ?c p = a mod 2 ^ 32"
    "\<forall>q\<in>S - set xs. operand_at ?c q = operand_at c q"
    using snoc.IH [of c] snoc.prems by auto
  have x: "x \<in> S" using snoc.prems by simp
  have x8: "x + 8 \<le> length ?c" and xlt: "operand_at ?c x < 2 ^ 32"
    using ih(1) x by (auto simp: slots_ok_def)
  have ok: "slots_ok (patch ?c x (le_encode 4 a)) S"
    using ih(1) x snoc.prems(3) by (intro slots_ok_patch) (simp_all add: ih(2))
  have len: "length (patch ?c x (le_encode 4 a)) = length c"
    using x8 by (simp add: length_patch length_le_encode ih(2))
  have same: "operand_at (patch ?c x (le_encode 4 a)) x = a mod 2 ^ 32"
    using x8 xlt by (rule operand_patch_same)
  have other: "operand_at (patch ?c x (le_encode 4 a)) q = operand_at ?c q"
    if "q \<in> S" "q \<noteq> x" for q
  proof -
    have "q + 8 \<le> x \<or> x + 8 \<le> q"
      using ih(1) x that by (auto simp: slots_ok_def)
    then show ?thesis using x8 by (intro operand_patch_other)
  qed
  have in_xs: "\<forall>p\<in>set (xs @ [x]). operand_at (patch ?c x (le_encode 4 a)) p = a mod 2 ^ 32"
  proof
    fix p assume "p \<in> set (xs @ [x])"
    then consider "p = x" | "p \<noteq> x" "p \<in> set xs" by auto
    then show "operand_at (patch ?c x (le_encode 4 a)) p = a mod 2 ^ 32"
    proof cases
      case 1 then show ?thesis using same by simp
    next
      case 2
      then have "p \<in> S" using snoc.prems(2) by auto
      then show ?thesis using other [of p] 2 ih(3) by simp
    qed
  qed
  have out: "\<forall>q\<in>S - set (xs @ [x]). operand_at (patch ?c x (le_encode 4 a)) q = operand_at c q"
    using other ih(4) by auto
  show ?case using ok len in_xs out by simp
qed

subsection \<open>What the emitters keep\<close>


lemma fixups_of_update [simp]:
  "fixups_of (g\<lparr>fixups := (fixups g)(l \<mapsto> xs)\<rparr>) l' = (if l' = l then xs else fixups_of g l')"
  by (simp add: fixups_of_def)

lemma fixups_of_cong: "fixups g' = fixups g \<Longrightarrow> fixups_of g' = fixups_of g"
  by (simp add: fixups_of_def fun_eq_iff)


lemma advances_trans: "advances F g g1 \<Longrightarrow> advances F g1 g2 \<Longrightarrow> advances F g g2"
  unfolding advances_def by auto

lemma advances_mono: "advances F g g' \<Longrightarrow> F \<subseteq> F' \<Longrightarrow> advances F' g g'"
  unfolding advances_def by auto

lemma advances_frame:
  assumes "code g' = code g @ bs" and "fixups g' = fixups g"
    and "labelToAddress g' = labelToAddress g" and "funcs g' = funcs g"
  shows "advances F g g'"
  using assms fixups_of_cong [OF assms(2)]
  by (auto simp: advances_def placed_def pending_def fixups_ok_def recorded_def
      intro: slots_ok_append)

lemma advances_Emit: "advances F g (Emit bs g)"
  by (rule advances_frame [where bs = bs]) (simp_all add: Emit_def)





lemma advances_Emit_Opcode: "advances F g (Emit_Opcode op g)"
  by (simp add: Emit_Opcode_def advances_Emit)

lemma advances_Emit_unsigned: "advances F g (Emit_unsigned v g)"
  by (simp add: Emit_unsigned_def advances_Emit)

lemma advances_EmitFixup:
  assumes "l \<in> F \<or> l \<in> placed g"
  shows "advances F g (EmitFixup l g)"
proof (cases "labelToAddress g l")
  case (Some a)
  then show ?thesis by (simp add: EmitFixup_def Emit_size_t_def advances_Emit)
next
  case None
  let ?g1 = "g\<lparr>fixups := (fixups g)(l \<mapsto> fixups_of g l @ [length (code g)])\<rparr>"
  let ?g' = "Emit_size_t 0 ?g1"
  have g': "EmitFixup l g = ?g'" using None by (simp add: EmitFixup_def fixups_of_def)
  have inF: "l \<in> F" using assms None by (auto simp: placed_def)
  have cd: "code ?g' = code g @ le_encode 8 0"
    by (simp add: Emit_size_t_def Emit_def)
  have fo: "fixups_of ?g' = fixups_of ?g1"
    by (rule fixups_of_cong) (simp add: Emit_size_t_def Emit_def)
  have fo': "fixups_of ?g' l' = (if l' = l then fixups_of g l @ [length (code g)] else fixups_of g l')"
    for l'
    unfolding fo by simp
  have rec: "recorded ?g' = insert (length (code g)) (recorded g)"
  proof (rule set_eqI)
    fix x
    show "x \<in> recorded ?g' \<longleftrightarrow> x \<in> insert (length (code g)) (recorded g)"
      unfolding recorded_def by (auto simp: fo' split: if_splits)
  qed
  have ok: "fixups_ok g \<longrightarrow> fixups_ok ?g'"
    unfolding fixups_ok_def rec cd by (auto intro: slots_ok_new)
  have pl: "placed ?g' = placed g" and fs: "funcs ?g' = funcs g"
    and la: "labelToAddress ?g' = labelToAddress g"
    by (simp_all add: placed_def Emit_size_t_def Emit_def)
  have pe: "pending ?g' \<subseteq> pending g \<union> F"
    using inF unfolding pending_def la by (auto simp: fo' split: if_splits)
  show ?thesis unfolding g' advances_def using ok pl fs pe by simp
qed

lemma EmitLabel_result:
  assumes "EmitLabel l g = Inr g'"
  shows "code g' = foldl (\<lambda>c loc. patch c loc (le_encode 4 (length (code g)))) (code g)
            (fixups_of g l)"
    and "fixups g' = (fixups g)(l \<mapsto> fixups_of g l)"
    and "labelToAddress g' = emplace l (of_nat (length (code g))) (labelToAddress g)"
    and "funcs g' = funcs g" and "depth g' = depth g" and "func g' = func g"
    and "nextLabel g' = nextLabel g"
  using assms by (auto simp: EmitLabel_def Let_def fixups_of_def split: if_splits)

lemma fixups_of_EmitLabel:
  assumes "EmitLabel l g = Inr g'"
  shows "fixups_of g' = fixups_of g"
proof
  fix l'
  have "g' = g'\<lparr>fixups := (fixups g)(l \<mapsto> fixups_of g l)\<rparr>"
    using EmitLabel_result(2) [OF assms] by simp
  then have "fixups_of g' l' = (case ((fixups g)(l \<mapsto> fixups_of g l)) l' of None \<Rightarrow> [] | Some ls \<Rightarrow> ls)"
    by (simp add: fixups_of_def EmitLabel_result(2) [OF assms])
  then show "fixups_of g' l' = fixups_of g l'"
    by (simp add: fixups_of_def)
qed

lemma recorded_EmitLabel:
  assumes "EmitLabel l g = Inr g'"
  shows "recorded g' = recorded g"
  by (simp add: recorded_def fixups_of_EmitLabel [OF assms])

lemma advances_EmitLabel:
  assumes "EmitLabel l g = Inr g'"
  shows "advances F g g'" and "l \<in> placed g'" and "pending g' \<subseteq> pending g - {l}"
proof -
  note r = EmitLabel_result [OF assms]
  have sub: "set (fixups_of g l) \<subseteq> recorded g"
    by (auto simp: recorded_def)
  have ok: "fixups_ok g \<longrightarrow> fixups_ok g'"
  proof
    assume "fixups_ok g"
    then have "slots_ok (code g) (recorded g)" by (simp add: fixups_ok_def)
    from patch_all [OF this sub, of "length (code g)"]
    show "fixups_ok g'"
      by (simp add: fixups_ok_def r(1) recorded_EmitLabel [OF assms])
  qed
  show pl: "l \<in> placed g'"
    by (simp add: placed_def r(3) emplace_def dom_def split: option.splits)
  have mono: "placed g \<subseteq> placed g'"
    by (auto simp: placed_def r(3) emplace_def split: option.splits)
  show pe: "pending g' \<subseteq> pending g - {l}"
    using pl unfolding pending_def placed_def fixups_of_EmitLabel [OF assms]
    by (auto simp: r(3) emplace_def split: option.splits if_splits)
  show "advances F g g'"
    unfolding advances_def using ok mono pe r(4) by auto
qed

lemma advances_placed: "advances F g g' \<Longrightarrow> l \<in> placed g \<Longrightarrow> l \<in> placed g'"
  by (auto simp: advances_def)









lemma advances_EmitJump:
  assumes "l \<in> F \<or> l \<in> placed g"
  shows "advances F g (EmitJump l g)"
proof -
  let ?g1 = "Emit_Opcode JUMP g"
  have a: "advances F g ?g1" by (rule advances_Emit_Opcode)
  have "l \<in> F \<or> l \<in> placed ?g1"
    using assms advances_placed [OF a] by auto
  then have "advances F ?g1 (EmitFixup l ?g1)" by (rule advances_EmitFixup)
  with a show ?thesis unfolding EmitJump_def by (rule advances_trans)
qed





subsection \<open>What the lowering keeps\<close>






subsection \<open>Scenario A and the native output primitive\<close>

lemma Run_more: "Run n c s = Returned s' \<Longrightarrow> Run (n + k) c s = Returned s'"
proof (induction n arbitrary: s)
  case 0
  then show ?case by simp
next
  case (Suc n)
  then show ?case
    by (cases "Step c s") (auto split: bool.splits)
qed

lemma Run_more_Failed: "Run n c s = Failed e s' \<Longrightarrow> Run (n + k) c s = Failed e s'"
proof (induction n arbitrary: s)
  case 0
  then show ?case by simp
next
  case (Suc n)
  then show ?case
    by (cases "Step c s") (auto split: bool.splits)
qed

lemma scenario_A_generator:
  "map_sum id (observe 1 21) (Translate_from Codegen_init scenario_A) =
     Inr (scenario_A_code, Some [21], Some 42, 42)"
  by code_simp

lemma scenario_A_translated: "Translate scenario_A = Inr scenario_A_code"
  using scenario_A_generator
  by (cases "Translate_from Codegen_init scenario_A") (auto simp: Translate_def observe_def)

lemma scenario_A_run:
  "Run 14 scenario_A_code (Interp_init [3, 2]) =
     Returned \<lparr>pc = 42, stack = [VInt 5], cin = [], cout = [5]\<rparr>"
  by code_simp

text \<open>
  Claim C1 as stated fails: with 3 and 2 on the input, the run of scenario A returns
  from \<^verbatim>\<open>STOP\<close> after one output of 5, but the stack is not empty: the copy that
  \<^verbatim>\<open>PrintInt\<close> pushed above its argument is still there.
\<close>

theorem scenario_A_counterexample:
  "Translate scenario_A = Inr scenario_A_code \<and>
   Run 14 scenario_A_code (Interp_init [3, 2]) =
     Returned \<lparr>pc = 42, stack = [VInt 5], cin = [], cout = [5]\<rparr> \<and>
   stack \<lparr>pc = 42, stack = [VInt 5], cin = [], cout = [5]\<rparr> \<noteq> []"
  using scenario_A_translated scenario_A_run by simp

text \<open>
  Claim C1, amended. Scenario A, with its summands read from the input, translates, and
  its run on the input 3, 2 returns from \<^verbatim>\<open>STOP\<close> within 14 iterations, and with any
  number of iterations above that; the output is then the single integer 5.
\<close>

theorem scenario_A_output:
  "Translate scenario_A = Inr scenario_A_code \<and>
   (\<exists>s. Run (14 + k) scenario_A_code (Interp_init [3, 2]) = Returned s \<and> cout s = [5])"
  using scenario_A_translated Run_more [OF scenario_A_run, of k] by simp

theorem scenario_A_output_witness:
  "Translate scenario_A = Inr scenario_A_code \<and>
   (\<exists>s. Run 20 scenario_A_code (Interp_init [3, 2]) = Returned s \<and> cout s = [5])"
  using scenario_A_output [of 6] by simp

text \<open>
  Claim C2 fails on the code at the call of a native primitive with an argument. For
  \<^verbatim>\<open>output(input())\<close> the generator records the depth 1 behind the \<^verbatim>\<open>CALL\<close>, and the
  interpreter, having executed the four instructions of the call on the input 7, holds
  two values: \<^verbatim>\<open>PrintInt\<close> reads its argument without removing it and pushes a copy. The
  translated statement ends with one value left on the stack.
\<close>

theorem native_call_depth_mismatch:
  "map_sum id depth_and_code (LowerExpr echo_scope echo_call Codegen_init) =
     Inr (1, echo_code) \<and>
   Run 4 echo_code (Interp_init [7]) =
     OutOfFuel \<lparr>pc = 20, stack = [VInt 7, VInt 7], cin = [], cout = [7]\<rparr> \<and>
   Translate echo_module = Inr (echo_code @ [opcode_byte POP, opcode_byte STOP]) \<and>
   Run 6 (echo_code @ [opcode_byte POP, opcode_byte STOP]) (Interp_init [7]) =
     Returned \<lparr>pc = 22, stack = [VInt 7], cin = [], cout = [7]\<rparr>"
  by code_simp

subsection \<open>Where the stack and the static depth disagree\<close>

lemma report_translated: "Translate report_module = Inr report_code"
  by code_simp

lemma report_run_8:
  "Run 8 report_code (Interp_init [7]) =
     OutOfFuel \<lparr>pc = 38, stack = [VInt 7, VAddr 20, VInt 7], cin = [], cout = [7]\<rparr>"
  by code_simp

text \<open>
  Claim C9 fails on the code behind a call of the native output primitive. In
  \<^verbatim>\<open>report\<close>, run on the input 7, the reference to \<^verbatim>\<open>a\<close> in \<^verbatim>\<open>return a\<close> is lowered
  at static depth 0 for slot 0, so the instruction at 38 is \<^verbatim>\<open>PEEK 1\<close>; the stack then
  holds the copy that \<^verbatim>\<open>PrintInt\<close> left above the return address, and the value that the
  ninth iteration pushes is the return address 20, not the argument 7.
\<close>

theorem argument_peek_after_print:
  "Translate report_module = Inr report_code \<and>
   take 5 (drop 38 report_code) = opcode_byte PEEK # le_encode 4 1 \<and>
   Run 8 report_code (Interp_init [7]) =
     OutOfFuel \<lparr>pc = 38, stack = [VInt 7, VAddr 20, VInt 7], cin = [], cout = [7]\<rparr> \<and>
   Step report_code \<lparr>pc = 38, stack = [VInt 7, VAddr 20, VInt 7], cin = [], cout = [7]\<rparr> =
     Inr (True, \<lparr>pc = 43, stack = [VAddr 20, VInt 7, VAddr 20, VInt 7], cin = [], cout = [7]\<rparr>)"
proof -
  have "take 5 (drop 38 report_code) = opcode_byte PEEK # le_encode 4 1"
    by code_simp
  moreover have
    "Step report_code \<lparr>pc = 38, stack = [VInt 7, VAddr 20, VInt 7], cin = [], cout = [7]\<rparr> =
     Inr (True, \<lparr>pc = 43, stack = [VAddr 20, VInt 7, VAddr 20, VInt 7], cin = [], cout = [7]\<rparr>)"
    by code_simp
  ultimately show ?thesis using report_translated report_run_8 by simp
qed

text \<open>
  Claim C3 fails on the code where the callee has called the native output primitive. In
  \<^verbatim>\<open>report(input())\<close> on the input 7 the stack is empty before the argument is pushed;
  after three iterations the argument and the address of \<^verbatim>\<open>report\<close> are on the stack,
  and the fourth executes the \<^verbatim>\<open>CALL\<close>. The \<^verbatim>\<open>RET\<close> of \<^verbatim>\<open>report\<close>, in the tenth
  iteration, finds the copy that \<^verbatim>\<open>PrintInt\<close> left where the static depth places the
  return address: the assertion of \<^verbatim>\<open>PopAddr\<close> fails, and the call never returns to leave
  one value on the stack.
\<close>

theorem call_does_not_return:
  "Translate report_module = Inr report_code \<and>
   Run 3 report_code (Interp_init [7]) =
     OutOfFuel \<lparr>pc = 19, stack = [VAddr 22, VInt 7], cin = [], cout = []\<rparr> \<and>
   Run 4 report_code (Interp_init [7]) =
     OutOfFuel \<lparr>pc = 22, stack = [VAddr 20, VInt 7], cin = [], cout = []\<rparr> \<and>
   take 9 (drop 43 report_code) = opcode_byte RET # le_encode 4 0 @ le_encode 4 1 \<and>
   Run 9 report_code (Interp_init [7]) =
     OutOfFuel \<lparr>pc = 43, stack = [VAddr 20, VInt 7, VAddr 20, VInt 7], cin = [], cout = [7]\<rparr> \<and>
   Run (10 + n) report_code (Interp_init [7]) =
     Failed (AssertionFailed ''v.Kind == Value::Kind::ADDR'')
       \<lparr>pc = 52, stack = [VAddr 20, VInt 7], cin = [], cout = [7]\<rparr>"
proof -
  have a: "Run 3 report_code (Interp_init [7]) =
     OutOfFuel \<lparr>pc = 19, stack = [VAddr 22, VInt 7], cin = [], cout = []\<rparr> \<and>
   Run 4 report_code (Interp_init [7]) =
     OutOfFuel \<lparr>pc = 22, stack = [VAddr 20, VInt 7], cin = [], cout = []\<rparr> \<and>
   take 9 (drop 43 report_code) = opcode_byte RET # le_encode 4 0 @ le_encode 4 1 \<and>
   Run 9 report_code (Interp_init [7]) =
     OutOfFuel \<lparr>pc = 43, stack = [VAddr 20, VInt 7, VAddr 20, VInt 7], cin = [], cout = [7]\<rparr>"
    by code_simp
  have "Run 10 report_code (Interp_init [7]) =
     Failed (AssertionFailed ''v.Kind == Value::Kind::ADDR'')
       \<lparr>pc = 52, stack = [VAddr 20, VInt 7], cin = [], cout = [7]\<rparr>"
    by code_simp
  then have "Run (10 + n) report_code (Interp_init [7]) =
     Failed (AssertionFailed ''v.Kind == Value::Kind::ADDR'')
       \<lparr>pc = 52, stack = [VAddr 20, VInt 7], cin = [], cout = [7]\<rparr>"
    by (rule Run_more_Failed)
  with a report_translated show ?thesis by simp
qed

subsection \<open>Labels and fixups after translation\<close>

lemma unat_ucast_32_64: "unat (ucast (w :: 32 word) :: 64 word) = unat w"
proof -
  have "unat (ucast w :: 64 word) = take_bit 64 (unat w)"
    by (simp add: unsigned_ucast_eq)
  moreover have "unat w < 2 ^ 32" using unsigned_less [of w, where 'a = nat] by simp
  then have "unat w < 2 ^ 64" by (rule less_le_trans) simp
  ultimately show ?thesis by (simp add: take_bit_nat_eq_self)
qed

lemma le_encode_zero: "le_encode n 0 = replicate n 0"
  by (induction n) simp_all


lemma fixups_ok_init: "fixups_ok Codegen_init" and pending_init: "pending Codegen_init = {}"
  by (simp_all add: fixups_ok_def slots_ok_def recorded_def fixups_of_def pending_def
      Codegen_init_def)







lemma EmitLabel_succeeds:
  assumes "fixups_ok g"
  shows "\<exists>g'. EmitLabel l g = Inr g'"
proof -
  have "\<forall>loc\<in>set (fixups_of g l). loc + 4 \<le> length (code g)"
  proof
    fix loc assume "loc \<in> set (fixups_of g l)"
    then have "loc \<in> recorded g" by (auto simp: recorded_def)
    then have "loc + 8 \<le> length (code g)"
      using assms by (simp add: fixups_ok_def slots_ok_def)
    then show "loc + 4 \<le> length (code g)" by simp
  qed
  then show ?thesis
    by (simp add: EmitLabel_def Let_def fixups_of_def)
qed

lemma EmitLabel_operands:
  assumes "fixups_ok g" and "EmitLabel l g = Inr g'"
  shows "\<forall>loc\<in>set (fixups_of g l). operand_at (code g') loc = length (code g) mod 2 ^ 32"
    and "length (code g') = length (code g)"
proof -
  have sub: "set (fixups_of g l) \<subseteq> recorded g" by (auto simp: recorded_def)
  have "slots_ok (code g) (recorded g)" using assms(1) by (simp add: fixups_ok_def)
  from patch_all [OF this sub, of "length (code g)"]
  show "\<forall>loc\<in>set (fixups_of g l). operand_at (code g') loc = length (code g) mod 2 ^ 32"
    and "length (code g') = length (code g)"
    by (simp_all add: EmitLabel_result(1) [OF assms(2)])
qed




lemma one_pending_facts:
  "fixups_ok one_pending" "fixups_of one_pending 1 = [1]" "length (code one_pending) = 9"
  "labelToAddress one_pending 1 = None"
proof -
  have "advances {1} Codegen_init (EmitJump 1 Codegen_init)"
    by (rule advances_EmitJump) simp
  then show "fixups_ok one_pending"
    using fixups_ok_init by (simp add: advances_def one_pending_def)
  show "fixups_of one_pending 1 = [1]" "length (code one_pending) = 9"
    "labelToAddress one_pending 1 = None"
    by (simp_all add: one_pending_def EmitJump_def EmitFixup_def Emit_size_t_def Emit_Opcode_def
        Emit_def Codegen_init_def fixups_of_def length_le_encode)
qed




text \<open>
  Claim C10. For an offset recorded for a label in a well-formed fixup table, after the
  label is placed at the end of a code of length \<open>n\<close>: the \<^verbatim>\<open>size_t\<close> that the
  interpreter reads at the offset is \<open>n mod 2 ^ 32\<close>, which is \<open>n\<close> when \<open>n < 2 ^ 32\<close>; the
  four low-order bytes hold \<open>n mod 2 ^ 32\<close> and the four high-order bytes are zero before
  and after. If the label was not placed before, the address stored for it is the
  32-bit \<open>n\<close>, a reference to it before the placement emits eight zero bytes, and a
  reference after the placement emits \<open>n mod 2 ^ 32\<close> in eight bytes.
\<close>

theorem label_address_width:
  assumes "fixups_ok g" and "loc \<in> set (fixups_of g l)" and "EmitLabel l g = Inr g'"
    and "length (code g) < 2 ^ 64" and "pc s = of_nat loc"
  shows "Read_size_t (code g') s = Inr (of_nat (length (code g) mod 2 ^ 32), s\<lparr>pc := pc s + 8\<rparr>) \<and>
    (length (code g) < 2 ^ 32 \<longrightarrow>
       Read_size_t (code g') s = Inr (of_nat (length (code g)), s\<lparr>pc := pc s + 8\<rparr>)) \<and>
    le_decode (take 4 (drop loc (code g'))) = length (code g) mod 2 ^ 32 \<and>
    le_decode (take 4 (drop (loc + 4) (code g))) = 0 \<and>
    le_decode (take 4 (drop (loc + 4) (code g'))) = 0 \<and>
    (labelToAddress g l = None \<longrightarrow>
       labelToAddress g' l = Some (of_nat (length (code g))) \<and>
       code (EmitFixup l g) = code g @ replicate 8 0 \<and>
       code (EmitFixup l g') = code g' @ le_encode 8 (length (code g) mod 2 ^ 32))"
proof -
  have rec: "loc \<in> recorded g" using assms(2) by (auto simp: recorded_def)
  have ok': "fixups_ok g'"
    using advances_EmitLabel(1) [OF assms(3), of "{}"] assms(1) by (simp add: advances_def)
  have rec': "loc \<in> recorded g'" using rec by (simp add: recorded_EmitLabel [OF assms(3)])
  have len: "length (code g') = length (code g)"
    using EmitLabel_operands(2) [OF assms(1,3)] .
  have l8: "loc + 8 \<le> length (code g)" and lt: "operand_at (code g) loc < 2 ^ 32"
    using assms(1) rec by (simp_all add: fixups_ok_def slots_ok_def)
  have lt': "operand_at (code g') loc < 2 ^ 32"
    using ok' rec' by (simp add: fixups_ok_def slots_ok_def)
  have op: "operand_at (code g') loc = length (code g) mod 2 ^ 32"
    using EmitLabel_operands(1) [OF assms(1,3)] assms(2) by blast
  have up: "unat (pc s) = loc"
    using l8 assms(4,5) by (simp add: unat_of_nat)
  have rd: "Read_size_t (code g') s =
      Inr (of_nat (length (code g) mod 2 ^ 32), s\<lparr>pc := pc s + 8\<rparr>)"
    using Read_size_t_ok [of s "code g'"] l8 assms(4) op
    by (simp add: up len operand_at_def)
  have hi: "le_decode (take 4 (drop (loc + 4) (code g))) = 0"
    using l8 lt by (rule operand_high_zero)
  have hi': "le_decode (take 4 (drop (loc + 4) (code g'))) = 0"
    using l8 lt' by (intro operand_high_zero) (simp_all add: len)
  have lo': "le_decode (take 4 (drop loc (code g'))) = length (code g) mod 2 ^ 32"
    using op hi' by (simp add: operand_split [of "code g'" loc])
  have un: "labelToAddress g' l = Some (of_nat (length (code g))) \<and>
      code (EmitFixup l g) = code g @ replicate 8 0 \<and>
      code (EmitFixup l g') = code g' @ le_encode 8 (length (code g) mod 2 ^ 32)"
    if n: "labelToAddress g l = None"
  proof -
    have a: "labelToAddress g' l = Some (of_nat (length (code g)))"
      using n by (simp add: EmitLabel_result(3) [OF assms(3)] emplace_def)
    have z: "le_encode 8 0 = replicate 8 0" by (rule le_encode_zero)
    have b: "code (EmitFixup l g) = code g @ replicate 8 0"
      using n by (simp add: EmitFixup_def Emit_size_t_def Emit_def z)
    have "unat (ucast (of_nat (length (code g)) :: 32 word) :: 64 word) =
        length (code g) mod 2 ^ 32"
      by (simp add: unat_of_nat unat_ucast_32_64)
    then have c: "code (EmitFixup l g') = code g' @ le_encode 8 (length (code g) mod 2 ^ 32)"
      using a by (simp add: EmitFixup_def Emit_size_t_def Emit_def)
    show ?thesis using a b c by simp
  qed
  show ?thesis using rd hi hi' lo' un by simp
qed

theorem label_address_width_witness:
  "\<exists>g'. EmitLabel 1 one_pending = Inr g' \<and>
     Read_size_t (code g') \<lparr>pc = 1, stack = [], cin = [], cout = []\<rparr> =
       Inr (9, \<lparr>pc = 9, stack = [], cin = [], cout = []\<rparr>)"
proof -
  obtain g' where e: "EmitLabel 1 one_pending = Inr g'"
    using EmitLabel_succeeds [OF one_pending_facts(1)] by blast
  have h2: "1 \<in> set (fixups_of one_pending 1)" by (simp add: one_pending_facts)
  have h4: "length (code one_pending) < 2 ^ 64" by (simp add: one_pending_facts)
  have h5: "pc \<lparr>pc = 1, stack = [], cin = [], cout = []\<rparr> = of_nat 1" by simp
  from label_address_width [OF one_pending_facts(1) h2 e h4 h5] e
  show ?thesis by (auto simp: one_pending_facts)
qed

end
